theory Spec2Isabelle
  imports Main
begin

section \<open>Runes, strings and the standard-library helpers the parser calls\<close>

text \<open>
  The Go code reads runes from a \<^verbatim>\<open>bufio.Reader\<close> and stores token texts as strings.
  A rune is modelled as a \<^typ>\<open>char\<close> standing for the code point of the same number
  (U+0000 to U+00FF), a string as the list of its runes, and the input stream as the
  finite list of runes the reader delivers before \<^verbatim>\<open>io.EOF\<close>; a reader that fails with
  another error is not modelled.  The character classes below are those of Go's
  \<^verbatim>\<open>unicode\<close> package on that range (\<^verbatim>\<open>unicode.IsSpace\<close>, \<^verbatim>\<open>unicode.IsLetter\<close>,
  \<^verbatim>\<open>unicode.IsDigit\<close>, \<^verbatim>\<open>unicode.ToLower\<close>).
\<close>

type_synonym rune = char

definition isSpace :: "rune \<Rightarrow> bool" where
  "isSpace r \<longleftrightarrow>
     r = CHR 0x09 \<or> r = CHR 0x0A \<or> r = CHR 0x0B \<or> r = CHR 0x0C \<or> r = CHR 0x0D \<or>
     r = CHR 0x20 \<or> r = CHR 0x85 \<or> r = CHR 0xA0"

definition isLetter :: "rune \<Rightarrow> bool" where
  "isLetter r \<longleftrightarrow>
     (let n = (of_char r :: nat) in
        (65 \<le> n \<and> n \<le> 90) \<or> (97 \<le> n \<and> n \<le> 122) \<or> n = 170 \<or> n = 181 \<or> n = 186 \<or>
        (192 \<le> n \<and> n \<le> 214) \<or> (216 \<le> n \<and> n \<le> 246) \<or> (248 \<le> n \<and> n \<le> 255))"

definition isDigit :: "rune \<Rightarrow> bool" where
  "isDigit r \<longleftrightarrow> (let n = (of_char r :: nat) in 48 \<le> n \<and> n \<le> 57)"

definition toLowerRune :: "rune \<Rightarrow> rune" where
  "toLowerRune r =
     (let n = (of_char r :: nat) in
        if (65 \<le> n \<and> n \<le> 90) \<or> (192 \<le> n \<and> n \<le> 214) \<or> (216 \<le> n \<and> n \<le> 222)
        then char_of (n + 32) else r)"

definition strings_ToLower :: "string \<Rightarrow> string" where
  "strings_ToLower s = map toLowerRune s"

definition strings_TrimSpace :: "string \<Rightarrow> string" where
  "strings_TrimSpace s = rev (dropWhile isSpace (rev (dropWhile isSpace s)))"

definition strings_HasPrefix :: "string \<Rightarrow> string \<Rightarrow> bool" where
  "strings_HasPrefix s p \<longleftrightarrow> take (length p) s = p"

text \<open>\<^verbatim>\<open>strings.Split(raw, ":")\<close> for a separator of one rune; \<open>cur\<close> is the segment
  being collected.\<close>

fun splitAcc :: "rune \<Rightarrow> string \<Rightarrow> string \<Rightarrow> string list" where
  "splitAcc sep cur [] = [cur]"
| "splitAcc sep cur (c # cs) =
     (if c = sep then cur # splitAcc sep [] cs else splitAcc sep (cur @ [c]) cs)"

definition strings_Split :: "string \<Rightarrow> rune \<Rightarrow> string list" where
  "strings_Split s sep = splitAcc sep [] s"

section \<open>Data model\<close>

datatype tokenType =
  tokenEOF | tokenIdent | tokenString | tokenLBrace | tokenRBrace | tokenEqual | tokenSemicolon

record token =
  typ' :: tokenType
  val :: string

text \<open>The errors of the package are \<^verbatim>\<open>fmt.Errorf\<close> values; each format string is one
  constructor carrying the formatted arguments.  \<open>SliceBoundsPanic\<close> is the run-time
  panic of a slice expression out of range.\<close>

datatype error =
    EOF
  | UnexpectedCharacter rune
  | UnexpectedToken tokenType
  | UnexpectedDomainRuleToken tokenType
  | UnexpectedDomainBlockToken tokenType
  | UnexpectedValueToken tokenType
  | ExpectedToken tokenType tokenType
  | InvalidBoolean string
  | ParseKey string error
  | SliceBoundsPanic

record SignHeader =
  Name :: string
  Oversigned :: bool
  OptionalOversigned :: bool

record DKIMConf =
  Enabled :: "bool option"
  SignHeaders :: string
  SignHeaderList :: "SignHeader list"

record DomainRule =
  Selector :: string
  Path :: string

record DKIMSigningConf =
  Enabled :: "bool option"
  AllowUsernameMismatch :: "bool option"
  SignAuthenticated :: "bool option"
  SignLocal :: "bool option"
  SignInbound :: "bool option"
  UseDomain :: string
  UseDomainSignLocal :: string
  UseDomainSignNetworks :: string
  AllowHdrFromMismatch :: "bool option"
  UseESLD :: "bool option"
  TryFallback :: "bool option"
  Path :: string
  Selector :: string
  PathMap :: string
  SelectorMap :: string
  Domain :: "string \<rightharpoonup> DomainRule"

text \<open>The lexer: the unread rest of the stream and the one-token pushback slot.  The
  scratch buffer \<^verbatim>\<open>buf\<close> is cleared before every use and read only by the call that
  fills it, so it is an argument of \<open>readIdent\<close> rather than a field.\<close>

record lexer =
  input :: "rune list"
  peek :: "token option"

definition newLexer :: "rune list \<Rightarrow> lexer" where
  "newLexer r = \<lparr>input = r, peek = None\<rparr>"

section \<open>Lexer\<close>

definition isIdentStart :: "rune \<Rightarrow> bool" where
  "isIdentStart r \<longleftrightarrow> isLetter r \<or> r = CHR ''_'' \<or> r = CHR ''$''"

definition isIdentPart :: "rune \<Rightarrow> bool" where
  "isIdentPart r \<longleftrightarrow>
     isLetter r \<or> isDigit r \<or> r = CHR ''_'' \<or> r = CHR ''-'' \<or> r = CHR ''.'' \<or>
     r = CHR ''/'' \<or> r = CHR ''$''"

fun skipLine :: "rune list \<Rightarrow> rune list" where
  "skipLine [] = []"
| "skipLine (r # rs) = (if r = CHR 0x0A then rs else skipLine rs)"

fun readIdent :: "rune list \<Rightarrow> rune list \<Rightarrow> rune list \<times> rune list" where
  "readIdent buf [] = (buf, [])"
| "readIdent buf (r # rs) =
     (if isIdentPart r then readIdent (buf @ [r]) rs else (buf, r # rs))"

fun readString :: "string \<Rightarrow> rune list \<Rightarrow> (error + string) \<times> rune list" where
  "readString b [] = (Inl EOF, [])"
| "readString b (r # rs) =
     (if r = CHR 0x22 then (Inr b, rs)
      else if r = CHR 0x5C then
        (case rs of
           [] \<Rightarrow> (Inl EOF, [])
         | esc # rs' \<Rightarrow> readString (b @ [esc]) rs')
      else readString (b @ [r]) rs)"

lemma length_skipLine: "length (skipLine rs) \<le> length rs"
  by (induction rs) auto

text \<open>The body of \<^verbatim>\<open>lexer.next\<close> below the pushback test: the token or error, and the
  rest of the stream after the runes read.\<close>

function lexRunes :: "rune list \<Rightarrow> (error + token) \<times> rune list" where
  "lexRunes [] = (Inr \<lparr>typ' = tokenEOF, val = []\<rparr>, [])"
| "lexRunes (r # rs) =
     (if r = CHR ''#'' then lexRunes (skipLine rs)
      else if isSpace r then lexRunes rs
      else if r = CHR ''{'' then (Inr \<lparr>typ' = tokenLBrace, val = []\<rparr>, rs)
      else if r = CHR ''}'' then (Inr \<lparr>typ' = tokenRBrace, val = []\<rparr>, rs)
      else if r = CHR ''='' then (Inr \<lparr>typ' = tokenEqual, val = []\<rparr>, rs)
      else if r = CHR '';'' then (Inr \<lparr>typ' = tokenSemicolon, val = []\<rparr>, rs)
      else if r = CHR 0x22 then
        (case readString [] rs of
           (Inl err, rest) \<Rightarrow> (Inl err, rest)
         | (Inr str, rest) \<Rightarrow> (Inr \<lparr>typ' = tokenString, val = str\<rparr>, rest))
      else if isIdentStart r then
        (case readIdent [r] rs of (buf, rest) \<Rightarrow> (Inr \<lparr>typ' = tokenIdent, val = buf\<rparr>, rest))
      else (Inl (UnexpectedCharacter r), rs))"
  by pat_completeness auto
termination
  by (relation "measure length") (auto simp: length_skipLine less_Suc_eq_le)

definition lexer_next :: "lexer \<Rightarrow> (error + token) \<times> lexer" where
  "lexer_next l =
     (case peek l of
        Some tok \<Rightarrow> (Inr tok, l\<lparr>peek := None\<rparr>)
      | None \<Rightarrow> (case lexRunes (input l) of (res, rest) \<Rightarrow> (res, l\<lparr>input := rest\<rparr>)))"

definition unread :: "lexer \<Rightarrow> token \<Rightarrow> lexer" where
  "unread l tok = l\<lparr>peek := Some tok\<rparr>"

section \<open>Generic parser\<close>

definition parseValue :: "lexer \<Rightarrow> (error + string) \<times> lexer" where
  "parseValue l =
     (case lexer_next l of
        (Inl err, l') \<Rightarrow> (Inl err, l')
      | (Inr tok, l') \<Rightarrow>
          (if typ' tok = tokenIdent \<or> typ' tok = tokenString then (Inr (val tok), l')
           else (Inl (UnexpectedValueToken (typ' tok)), l')))"

definition expect :: "lexer \<Rightarrow> tokenType \<Rightarrow> error option \<times> lexer" where
  "expect l ty =
     (case lexer_next l of
        (Inl err, l') \<Rightarrow> (Some err, l')
      | (Inr tok, l') \<Rightarrow>
          (if typ' tok \<noteq> ty then (Some (ExpectedToken ty (typ' tok)), l') else (None, l')))"

definition tryConsume :: "lexer \<Rightarrow> tokenType \<Rightarrow> (error + bool) \<times> lexer" where
  "tryConsume l ty =
     (case lexer_next l of
        (Inl err, l') \<Rightarrow> (Inl err, l')
      | (Inr tok, l') \<Rightarrow>
          (if typ' tok = ty then (Inr True, l') else (Inr False, unread l' tok)))"

text \<open>Termination measure of the parser's loops: two per unread rune and one for a
  pushed-back token.\<close>

definition lsize :: "lexer \<Rightarrow> nat" where
  "lsize l = 2 * length (input l) + (case peek l of None \<Rightarrow> 0 | Some tok \<Rightarrow> 1)"

lemma length_readIdent: "readIdent buf rs = (buf', rest) \<Longrightarrow> length rest \<le> length rs"
  by (induction buf rs rule: readIdent.induct) (auto split: if_splits)

lemma length_readString: "readString b rs = (res, rest) \<Longrightarrow> length rest \<le> length rs"
  by (induction b rs rule: readString.induct)
     (fastforce split: if_splits list.splits)+

lemma length_lexRunes: "lexRunes rs = (res, rest) \<Longrightarrow> length rest \<le> length rs"
proof (induction rs arbitrary: res rest rule: lexRunes.induct)
  case 1
  then show ?case by simp
next
  case (2 r rs)
  show ?case
  proof (cases "r = CHR ''#''")
    case True
    with 2 have "length rest \<le> length (skipLine rs)" by simp
    then show ?thesis using length_skipLine [of rs] by simp
  next
    case False
    with 2 show ?thesis
      by (auto split: if_splits prod.splits sum.splits
               dest!: length_readString length_readIdent)
  qed
qed

lemma length_lexRunes_token:
  "lexRunes rs = (Inr tok, rest) \<Longrightarrow> typ' tok \<noteq> tokenEOF \<Longrightarrow> length rest < length rs"
proof (induction rs arbitrary: tok rest rule: lexRunes.induct)
  case 1
  then show ?case by auto
next
  case (2 r rs)
  show ?case
  proof (cases "r = CHR ''#''")
    case True
    with 2 have "length rest < length (skipLine rs)" by simp
    then show ?thesis using length_skipLine [of rs] by simp
  next
    case False
    with 2 show ?thesis
      by (auto split: if_splits prod.splits sum.splits
               dest!: length_readString length_readIdent)
  qed
qed

lemma lsize_lexer_next: "lexer_next l = (res, l') \<Longrightarrow> lsize l' \<le> lsize l"
  by (auto simp: lexer_next_def lsize_def split: option.splits prod.splits
           dest: length_lexRunes)

lemma lsize_lexer_next_token:
  "lexer_next l = (Inr tok, l') \<Longrightarrow> typ' tok \<noteq> tokenEOF \<Longrightarrow> lsize l' < lsize l"
  by (auto simp: lexer_next_def lsize_def split: option.splits prod.splits
           dest: length_lexRunes_token)

lemma lsize_expect:
  "expect l ty = (None, l') \<Longrightarrow> ty \<noteq> tokenEOF \<Longrightarrow> lsize l' < lsize l"
  by (auto simp: expect_def split: prod.splits sum.splits if_splits
           dest: lsize_lexer_next_token)

lemma lsize_parseValue: "parseValue l = (Inr v, l') \<Longrightarrow> lsize l' < lsize l"
  by (auto simp: parseValue_def split: prod.splits sum.splits if_splits
           dest: lsize_lexer_next_token)

lemma lsize_tryConsume: "tryConsume l ty = (res, l') \<Longrightarrow> lsize l' \<le> lsize l + 1"
  by (auto simp: tryConsume_def unread_def lexer_next_def lsize_def
           split: prod.splits sum.splits if_splits option.splits
           dest: length_lexRunes)

text \<open>The inner loop of \<^verbatim>\<open>parseDomainBlock\<close>: the assignments of one domain entry, up to
  its closing brace.  \<open>rule\<close> is the map being filled.\<close>

function parseDomainRule ::
  "lexer \<Rightarrow> (string \<rightharpoonup> string) \<Rightarrow> error + ((string \<rightharpoonup> string) \<times> lexer)" where
  "parseDomainRule l rule =
     (case lexer_next l of
        (Inl err, l1) \<Rightarrow> Inl err
      | (Inr t, l1) \<Rightarrow>
          if typ' t = tokenRBrace then
            (case tryConsume l1 tokenSemicolon of (ignored, l2) \<Rightarrow> Inr (rule, l2))
          else if typ' t \<noteq> tokenIdent then Inl (UnexpectedDomainRuleToken (typ' t))
          else
            (case expect l1 tokenEqual of
               (Some err, l2) \<Rightarrow> Inl err
             | (None, l2) \<Rightarrow>
                 (case parseValue l2 of
                    (Inl err, l3) \<Rightarrow> Inl err
                  | (Inr v, l3) \<Rightarrow>
                      (case tryConsume l3 tokenSemicolon of
                         (ignored, l4) \<Rightarrow> parseDomainRule l4 (rule(val t \<mapsto> v))))))"
  by pat_completeness auto
termination
proof (relation "measure (\<lambda>(l, rule). lsize l)", goal_cases)
  case 1
  show ?case by simp
next
  case (2 l rule x1 l1 t x2 l2 x3 l3 v x4 l4)
  have "lsize l1 < lsize l"
    using 2 lsize_lexer_next_token [of l t l1] by auto
  moreover have "lsize l2 < lsize l1"
    using 2 lsize_expect [of l1 tokenEqual l2] by auto
  moreover have "lsize l3 < lsize l2"
    using 2 lsize_parseValue [of l2 v l3] by auto
  moreover have "lsize l4 \<le> lsize l3 + 1"
    using 2 lsize_tryConsume [of l3 tokenSemicolon x4 l4] by auto
  ultimately show ?case by simp
qed

lemma lsize_parseDomainRule:
  "parseDomainRule l rule = Inr (rule', l') \<Longrightarrow> lsize l' \<le> lsize l"
proof (induction l rule rule: parseDomainRule.induct)
  case (1 l rule)
  obtain res l1 where n: "lexer_next l = (res, l1)" by (cases "lexer_next l")
  show ?case
  proof (cases res)
    case (Inl err)
    with 1(2) n show ?thesis by (simp add: parseDomainRule.simps [of l])
  next
    case (Inr t)
    show ?thesis
    proof (cases "typ' t = tokenRBrace")
      case True
      obtain ig l2 where t2: "tryConsume l1 tokenSemicolon = (ig, l2)"
        by (cases "tryConsume l1 tokenSemicolon")
      from 1(2) n Inr True t2 have "l' = l2"
        by (simp add: parseDomainRule.simps [of l])
      moreover have "lsize l1 < lsize l"
        using n Inr True lsize_lexer_next_token [of l t l1] by simp
      moreover have "lsize l2 \<le> lsize l1 + 1"
        using t2 by (rule lsize_tryConsume)
      ultimately show ?thesis by simp
    next
      case False
      note notR = this
      show ?thesis
      proof (cases "typ' t = tokenIdent")
        case False
        with 1(2) n Inr notR show ?thesis by (simp add: parseDomainRule.simps [of l])
      next
        case True
        obtain e l2 where ex: "expect l1 tokenEqual = (e, l2)"
          by (cases "expect l1 tokenEqual")
        obtain pv l3 where pv: "parseValue l2 = (pv, l3)" by (cases "parseValue l2")
        obtain ig l4 where t4: "tryConsume l3 tokenSemicolon = (ig, l4)"
          by (cases "tryConsume l3 tokenSemicolon")
        from 1(2) n Inr notR True ex have e: "e = None"
          by (cases e) (simp_all add: parseDomainRule.simps [of l])
        from 1(2) n Inr notR True ex e pv obtain v where v: "pv = Inr v"
          by (cases pv) (simp_all add: parseDomainRule.simps [of l])
        from 1(2) n Inr notR True ex e pv v t4
        have rec: "parseDomainRule l4 (rule(val t \<mapsto> v)) = Inr (rule', l')"
          by (simp add: parseDomainRule.simps [of l])
        have "lsize l' \<le> lsize l4"
          using 1(1) [OF n [symmetric] Inr notR _ ex [symmetric] e pv [symmetric] v
                        t4 [symmetric] rec] True by simp
        moreover have "lsize l1 < lsize l"
          using n Inr True lsize_lexer_next_token [of l t l1] by simp
        moreover have "lsize l2 < lsize l1"
          using ex e lsize_expect [of l1 tokenEqual l2] by simp
        moreover have "lsize l3 < lsize l2"
          using pv v lsize_parseValue [of l2 v l3] by simp
        moreover have "lsize l4 \<le> lsize l3 + 1"
          using t4 by (rule lsize_tryConsume)
        ultimately show ?thesis by simp
      qed
    qed
  qed
qed

text \<open>The outer loop of \<^verbatim>\<open>parseDomainBlock\<close>, after the opening brace: one domain entry
  per round, each with a fresh rule map stored under its label.\<close>

function parseDomainEntries ::
  "lexer \<Rightarrow> (string \<rightharpoonup> (string \<rightharpoonup> string)) \<Rightarrow>
     error + ((string \<rightharpoonup> (string \<rightharpoonup> string)) \<times> lexer)" where
  "parseDomainEntries l domains =
     (case lexer_next l of
        (Inl err, l1) \<Rightarrow> Inl err
      | (Inr tok, l1) \<Rightarrow>
          if typ' tok = tokenRBrace then
            (case tryConsume l1 tokenSemicolon of (ignored, l2) \<Rightarrow> Inr (domains, l2))
          else if typ' tok = tokenIdent \<or> typ' tok = tokenString then
            (case expect l1 tokenLBrace of
               (Some err, l2) \<Rightarrow> Inl err
             | (None, l2) \<Rightarrow>
                 (case parseDomainRule l2 Map.empty of
                    Inl err \<Rightarrow> Inl err
                  | Inr (rule, l3) \<Rightarrow> parseDomainEntries l3 (domains(val tok \<mapsto> rule))))
          else Inl (UnexpectedDomainBlockToken (typ' tok)))"
  by pat_completeness auto
termination
proof (relation "measure (\<lambda>(l, domains). lsize l)", goal_cases)
  case 1
  show ?case by simp
next
  case (2 l domains x1 l1 tok x2 l2 x3 rule l3)
  have "lsize l1 < lsize l"
    using 2 lsize_lexer_next_token [of l tok l1] by auto
  moreover have "lsize l2 < lsize l1"
    using 2 lsize_expect [of l1 tokenLBrace l2] by auto
  moreover have "lsize l3 \<le> lsize l2"
    using 2 lsize_parseDomainRule [of l2 Map.empty rule l3] by auto
  ultimately show ?case by simp
qed

definition parseDomainBlock ::
  "lexer \<Rightarrow> (string \<rightharpoonup> (string \<rightharpoonup> string)) \<Rightarrow>
     error + ((string \<rightharpoonup> (string \<rightharpoonup> string)) \<times> lexer)" where
  "parseDomainBlock l domains =
     (case expect l tokenLBrace of
        (Some err, l1) \<Rightarrow> Inl err
      | (None, l1) \<Rightarrow> parseDomainEntries l1 domains)"

lemma lsize_parseDomainEntries:
  "parseDomainEntries l domains = Inr (domains', l') \<Longrightarrow> lsize l' \<le> lsize l"
proof (induction l domains rule: parseDomainEntries.induct)
  case (1 l domains)
  obtain res l1 where n: "lexer_next l = (res, l1)" by (cases "lexer_next l")
  show ?case
  proof (cases res)
    case (Inl err)
    with 1(2) n show ?thesis by (simp add: parseDomainEntries.simps [of l])
  next
    case (Inr tok)
    show ?thesis
    proof (cases "typ' tok = tokenRBrace")
      case True
      obtain ig l2 where t2: "tryConsume l1 tokenSemicolon = (ig, l2)"
        by (cases "tryConsume l1 tokenSemicolon")
      from 1(2) n Inr True t2 have "l' = l2"
        by (simp add: parseDomainEntries.simps [of l])
      moreover have "lsize l1 < lsize l"
        using n Inr True lsize_lexer_next_token [of l tok l1] by simp
      moreover have "lsize l2 \<le> lsize l1 + 1"
        using t2 by (rule lsize_tryConsume)
      ultimately show ?thesis by simp
    next
      case False
      note notR = this
      show ?thesis
      proof (cases "typ' tok = tokenIdent \<or> typ' tok = tokenString")
        case False
        with 1(2) n Inr notR show ?thesis by (simp add: parseDomainEntries.simps [of l])
      next
        case True
        obtain e l2 where ex: "expect l1 tokenLBrace = (e, l2)"
          by (cases "expect l1 tokenLBrace")
        from 1(2) n Inr notR True ex have e: "e = None"
          by (cases e) (simp_all add: parseDomainEntries.simps [of l])
        from 1(2) n Inr notR True ex e obtain rule l3
          where pr: "parseDomainRule l2 Map.empty = Inr (rule, l3)"
          by (cases "parseDomainRule l2 Map.empty")
             (auto simp add: parseDomainEntries.simps [of l])
        from 1(2) n Inr notR True ex e pr
        have rec: "parseDomainEntries l3 (domains(val tok \<mapsto> rule)) = Inr (domains', l')"
          by (simp add: parseDomainEntries.simps [of l])
        have "lsize l' \<le> lsize l3"
          using 1(1) [OF n [symmetric] Inr notR True ex [symmetric] e pr refl rec] .
        moreover have "lsize l1 < lsize l"
          using n Inr True lsize_lexer_next_token [of l tok l1] by auto
        moreover have "lsize l2 < lsize l1"
          using ex e lsize_expect [of l1 tokenLBrace l2] by simp
        moreover have "lsize l3 \<le> lsize l2"
          using pr by (rule lsize_parseDomainRule)
        ultimately show ?thesis by simp
      qed
    qed
  qed
qed

lemma lsize_parseDomainBlock:
  "parseDomainBlock l domains = Inr (domains', l') \<Longrightarrow> lsize l' < lsize l"
proof -
  assume a: "parseDomainBlock l domains = Inr (domains', l')"
  obtain e l1 where ex: "expect l tokenLBrace = (e, l1)" by (cases "expect l tokenLBrace")
  from a ex have e: "e = None" by (cases e) (simp_all add: parseDomainBlock_def)
  from a ex e have "parseDomainEntries l1 domains = Inr (domains', l')"
    by (simp add: parseDomainBlock_def)
  then have "lsize l' \<le> lsize l1" by (rule lsize_parseDomainEntries)
  moreover have "lsize l1 < lsize l"
    using ex e lsize_expect [of l tokenLBrace l1] by simp
  ultimately show ?thesis by simp
qed

text \<open>The loop of \<^verbatim>\<open>parseRspamdConfig\<close>.  The result of every \<^verbatim>\<open>tryConsume\<close> is dropped,
  its error included, as the source's \<^verbatim>\<open>_, _ = tryConsume(l, tokenSemicolon)\<close> does; the
  lexer goes on from where that call left it.\<close>

function parseConfigLoop ::
  "lexer \<Rightarrow> (string \<rightharpoonup> string) \<Rightarrow> (string \<rightharpoonup> (string \<rightharpoonup> string)) \<Rightarrow>
     error + ((string \<rightharpoonup> string) \<times> (string \<rightharpoonup> (string \<rightharpoonup> string)))" where
  "parseConfigLoop l assignments domains =
     (case lexer_next l of
        (Inl err, l1) \<Rightarrow> Inl err
      | (Inr tok, l1) \<Rightarrow>
          if typ' tok = tokenEOF then Inr (assignments, domains)
          else if typ' tok = tokenIdent then
            (if val tok = ''domain'' then
               (case parseDomainBlock l1 domains of
                  Inl err \<Rightarrow> Inl err
                | Inr (domains', l2) \<Rightarrow> parseConfigLoop l2 assignments domains')
             else
               (case expect l1 tokenEqual of
                  (Some err, l2) \<Rightarrow> Inl err
                | (None, l2) \<Rightarrow>
                    (case parseValue l2 of
                       (Inl err, l3) \<Rightarrow> Inl err
                     | (Inr v, l3) \<Rightarrow>
                         (case tryConsume l3 tokenSemicolon of
                            (ignored, l4) \<Rightarrow>
                              parseConfigLoop l4 (assignments(val tok \<mapsto> v)) domains))))
          else Inl (UnexpectedToken (typ' tok)))"
  by pat_completeness auto
termination
proof (relation "measure (\<lambda>(l, assignments, domains). lsize l)", goal_cases)
  case 1
  show ?case by simp
next
  case (2 l assignments domains x1 l1 tok x2 domains' l2)
  have "lsize l1 < lsize l"
    using 2 lsize_lexer_next_token [of l tok l1] by auto
  moreover have "lsize l2 < lsize l1"
    using 2 lsize_parseDomainBlock [of l1 domains domains' l2] by auto
  ultimately show ?case by simp
next
  case (3 l assignments domains x1 l1 tok x2 l2 x3 l3 v x4 l4)
  have "lsize l1 < lsize l"
    using 3 lsize_lexer_next_token [of l tok l1] by auto
  moreover have "lsize l2 < lsize l1"
    using 3 lsize_expect [of l1 tokenEqual l2] by auto
  moreover have "lsize l3 < lsize l2"
    using 3 lsize_parseValue [of l2 v l3] by auto
  moreover have "lsize l4 \<le> lsize l3 + 1"
    using 3 lsize_tryConsume [of l3 tokenSemicolon x4 l4] by auto
  ultimately show ?case by simp
qed

definition parseRspamdConfig ::
  "rune list \<Rightarrow> error + ((string \<rightharpoonup> string) \<times> (string \<rightharpoonup> (string \<rightharpoonup> string)))" where
  "parseRspamdConfig r = parseConfigLoop (newLexer r) Map.empty Map.empty"

section \<open>Typed projections\<close>

definition parseBool :: "string \<Rightarrow> error + bool" where
  "parseBool v =
     (let lowered = strings_ToLower v in
        if lowered = ''true'' then Inr True
        else if lowered = ''false'' then Inr False
        else Inl (InvalidBoolean v))"

text \<open>The slice expression \<^verbatim>\<open>h[n:]\<close>, which panics when \<open>n\<close> exceeds the length.\<close>

definition sliceFrom :: "string \<Rightarrow> nat \<Rightarrow> error + string" where
  "sliceFrom h n = (if n \<le> length h then Inr (drop n h) else Inl SliceBoundsPanic)"

text \<open>One round of the loop of \<^verbatim>\<open>parseSignHeaders\<close>: \<open>None\<close> is \<^verbatim>\<open>continue\<close>, \<open>Some h\<close>
  the entry appended.\<close>

definition signHeaderPart :: "string \<Rightarrow> error + SignHeader option" where
  "signHeaderPart part =
     (let h = strings_TrimSpace part in
        if h = [] then Inr None
        else
          (case (if strings_HasPrefix h ''(o)'' then
                   (case sliceFrom h 3 of
                      Inl err \<Rightarrow> Inl err
                    | Inr t \<Rightarrow> Inr (True, False, strings_TrimSpace t))
                 else if strings_HasPrefix h ''(x)'' then
                   (case sliceFrom h 3 of
                      Inl err \<Rightarrow> Inl err
                    | Inr t \<Rightarrow> Inr (False, True, strings_TrimSpace t))
                 else Inr (False, False, h)) of
             Inl err \<Rightarrow> Inl err
           | Inr (oversigned, optionalOversigned, h') \<Rightarrow>
               if h' = [] then Inr None
               else Inr (Some \<lparr>Name = h', Oversigned = oversigned,
                               OptionalOversigned = optionalOversigned\<rparr>)))"

fun parseSignHeadersLoop :: "string list \<Rightarrow> SignHeader list \<Rightarrow> error + SignHeader list" where
  "parseSignHeadersLoop [] out = Inr out"
| "parseSignHeadersLoop (part # parts) out =
     (case signHeaderPart part of
        Inl err \<Rightarrow> Inl err
      | Inr None \<Rightarrow> parseSignHeadersLoop parts out
      | Inr (Some h) \<Rightarrow> parseSignHeadersLoop parts (out @ [h]))"

definition parseSignHeaders :: "string \<Rightarrow> error + SignHeader list" where
  "parseSignHeaders raw = parseSignHeadersLoop (strings_Split raw (CHR '':'')) []"

text \<open>A Go map read at a missing key gives the zero value, the empty string.\<close>

definition lookupStr :: "(string \<rightharpoonup> string) \<Rightarrow> string \<Rightarrow> string" where
  "lookupStr m k = (case m k of None \<Rightarrow> [] | Some v \<Rightarrow> v)"

text \<open>\<^verbatim>\<open>SignHeaderList\<close> is a slice; the nil slice and the empty slice are both the
  empty list.  \<open>buildDKIMConf\<close> is the body of \<^verbatim>\<open>ParseDKIMConf\<close> after the generic parse
  has returned; the domain blocks are dropped there (\<^verbatim>\<open>assignments, _, err := ...\<close>).\<close>

definition buildDKIMConf :: "(string \<rightharpoonup> string) \<Rightarrow> error + DKIMConf" where
  "buildDKIMConf assignments =
     (let signHeaders = lookupStr assignments ''sign_headers'' in
        (case (if signHeaders \<noteq> [] then parseSignHeaders signHeaders else Inr []) of
           Inl err \<Rightarrow> Inl err
         | Inr signHeaderList \<Rightarrow>
             (case assignments ''enabled'' of
                None \<Rightarrow>
                  Inr \<lparr>DKIMConf.Enabled = None, SignHeaders = signHeaders,
                       SignHeaderList = signHeaderList\<rparr>
              | Some v \<Rightarrow>
                  (case parseBool v of
                     Inl err \<Rightarrow> Inl (ParseKey ''enabled'' err)
                   | Inr parsed \<Rightarrow>
                       Inr \<lparr>DKIMConf.Enabled = Some parsed, SignHeaders = signHeaders,
                            SignHeaderList = signHeaderList\<rparr>))))"

definition ParseDKIMConf :: "rune list \<Rightarrow> error + DKIMConf" where
  "ParseDKIMConf r =
     (case parseRspamdConfig r of
        Inl err \<Rightarrow> Inl err
      | Inr (assignments, domains) \<Rightarrow> buildDKIMConf assignments)"

text \<open>The closure \<^verbatim>\<open>setBool\<close>: \<open>dst\<close> is the field's value before the call, the result its
  value after it.\<close>

definition setBool :: "(string \<rightharpoonup> string) \<Rightarrow> bool option \<Rightarrow> string \<Rightarrow> error + bool option" where
  "setBool assignments dst key =
     (case assignments key of
        None \<Rightarrow> Inr dst
      | Some v \<Rightarrow>
          (case parseBool v of
             Inl err \<Rightarrow> Inl (ParseKey key err)
           | Inr parsed \<Rightarrow> Inr (Some parsed)))"

text \<open>The loop over the domain blocks: every block label gets the rule made of the block's
  \<^verbatim>\<open>selector\<close> and \<^verbatim>\<open>path\<close>.\<close>

definition domainRules ::
  "(string \<rightharpoonup> (string \<rightharpoonup> string)) \<Rightarrow> (string \<rightharpoonup> DomainRule)" where
  "domainRules domain key =
     (case domain key of
        None \<Rightarrow> None
      | Some rule \<Rightarrow>
          Some \<lparr>DomainRule.Selector = lookupStr rule ''selector'',
                DomainRule.Path = lookupStr rule ''path''\<rparr>)"

text \<open>\<open>buildDKIMSigningConf\<close> is the body of \<^verbatim>\<open>ParseDKIMSigningConf\<close> after the generic
  parse has returned.\<close>

definition buildDKIMSigningConf ::
  "(string \<rightharpoonup> string) \<Rightarrow> (string \<rightharpoonup> (string \<rightharpoonup> string)) \<Rightarrow> error + DKIMSigningConf" where
  "buildDKIMSigningConf assignments domain =
     (let conf = \<lparr>Enabled = None, AllowUsernameMismatch = None, SignAuthenticated = None,
                  SignLocal = None, SignInbound = None,
                  UseDomain = lookupStr assignments ''use_domain'',
                  UseDomainSignLocal = lookupStr assignments ''use_domain_sign_local'',
                  UseDomainSignNetworks = lookupStr assignments ''use_domain_sign_networks'',
                  AllowHdrFromMismatch = None, UseESLD = None, TryFallback = None,
                  Path = lookupStr assignments ''path'',
                  Selector = lookupStr assignments ''selector'',
                  PathMap = lookupStr assignments ''path_map'',
                  SelectorMap = lookupStr assignments ''selector_map'',
                  Domain = domainRules domain\<rparr>
      in
      case setBool assignments (Enabled conf) ''enabled'' of
        Inl err \<Rightarrow> Inl err
      | Inr b1 \<Rightarrow>
      case setBool assignments (AllowUsernameMismatch conf) ''allow_username_mismatch'' of
        Inl err \<Rightarrow> Inl err
      | Inr b2 \<Rightarrow>
      case setBool assignments (SignAuthenticated conf) ''sign_authenticated'' of
        Inl err \<Rightarrow> Inl err
      | Inr b3 \<Rightarrow>
      case setBool assignments (SignLocal conf) ''sign_local'' of
        Inl err \<Rightarrow> Inl err
      | Inr b4 \<Rightarrow>
      case setBool assignments (SignInbound conf) ''sign_inbound'' of
        Inl err \<Rightarrow> Inl err
      | Inr b5 \<Rightarrow>
      case setBool assignments (AllowHdrFromMismatch conf) ''allow_hdrfrom_mismatch'' of
        Inl err \<Rightarrow> Inl err
      | Inr b6 \<Rightarrow>
      case setBool assignments (UseESLD conf) ''use_esld'' of
        Inl err \<Rightarrow> Inl err
      | Inr b7 \<Rightarrow>
      case setBool assignments (TryFallback conf) ''try_fallback'' of
        Inl err \<Rightarrow> Inl err
      | Inr b8 \<Rightarrow>
          Inr (conf\<lparr>Enabled := b1, AllowUsernameMismatch := b2, SignAuthenticated := b3,
                    SignLocal := b4, SignInbound := b5, AllowHdrFromMismatch := b6,
                    UseESLD := b7, TryFallback := b8\<rparr>))"

definition ParseDKIMSigningConf :: "rune list \<Rightarrow> error + DKIMSigningConf" where
  "ParseDKIMSigningConf r =
     (case parseRspamdConfig r of
        Inl err \<Rightarrow> Inl err
      | Inr (assignments, domain) \<Rightarrow> buildDKIMSigningConf assignments domain)"

section \<open>Vocabulary for the statements\<close>

text \<open>Auxiliary, for the proofs only: the entry a round of the loop appends, if any.\<close>

definition entryOf :: "string \<Rightarrow> SignHeader option" where
  "entryOf part = (case signHeaderPart part of Inl err \<Rightarrow> None | Inr res \<Rightarrow> res)"

text \<open>The source text of a quoted string's body, piece by piece: a rune written as
  itself, or a rune written after a backslash.\<close>

datatype piece = Plain rune | Escaped rune

fun pieceText :: "piece \<Rightarrow> rune list" where
  "pieceText (Plain c) = [c]"
| "pieceText (Escaped c) = [CHR 0x5C, c]"

fun pieceRune :: "piece \<Rightarrow> rune" where
  "pieceRune (Plain c) = c"
| "pieceRune (Escaped c) = c"

fun plainOK :: "piece \<Rightarrow> bool" where
  "plainOK (Plain c) = (c \<noteq> CHR 0x22 \<and> c \<noteq> CHR 0x5C)"
| "plainOK (Escaped c) = True"

definition piecesText :: "piece list \<Rightarrow> rune list" where
  "piecesText ps = concat (map pieceText ps)"


text \<open>A value that equals \<^verbatim>\<open>true\<close> or \<^verbatim>\<open>false\<close> when case is ignored.\<close>

definition isBoolText :: "string \<Rightarrow> bool" where
  "isBoolText v \<longleftrightarrow> strings_ToLower v = ''true'' \<or> strings_ToLower v = ''false''"

text \<open>Vocabulary for statements about inputs with arbitrary keys and values: the text of an
  identifier token, a stream on which an identifier run stops, and a word as the grammar's
  \<^verbatim>\<open>IDENT | STRING\<close> with its source text and its token.\<close>

definition isIdentText :: "string \<Rightarrow> bool" where
  "isIdentText s = (case s of [] \<Rightarrow> False | c # cs \<Rightarrow> isIdentStart c \<and> list_all isIdentPart cs)"

definition stopsIdent :: "rune list \<Rightarrow> bool" where
  "stopsIdent rest = (case rest of [] \<Rightarrow> True | c # cs \<Rightarrow> \<not> isIdentPart c)"

datatype word = Bare string | Quoted "piece list"

fun wordText :: "word \<Rightarrow> rune list" where
  "wordText (Bare s) = s"
| "wordText (Quoted ps) = CHR 0x22 # piecesText ps @ [CHR 0x22]"

fun wordToken :: "word \<Rightarrow> token" where
  "wordToken (Bare s) = \<lparr>typ' = tokenIdent, val = s\<rparr>"
| "wordToken (Quoted ps) = \<lparr>typ' = tokenString, val = map pieceRune ps\<rparr>"

fun wordOK :: "word \<Rightarrow> bool" where
  "wordOK (Bare s) = isIdentText s"
| "wordOK (Quoted ps) = list_all plainOK ps"

text \<open>Well-formed domain blocks as texts: a block is a list of entries, an entry a label
  with its assignments, written in one fixed layout.\<close>

fun assignText :: "string \<times> word \<Rightarrow> rune list" where
  "assignText (k, w) = k @ '' = '' @ wordText w @ ''; ''"

fun assignOK :: "string \<times> word \<Rightarrow> bool" where
  "assignOK (k, w) = (isIdentText k \<and> wordOK w)"

fun entryText :: "word \<times> (string \<times> word) list \<Rightarrow> rune list" where
  "entryText (label, as) = wordText label @ '' { '' @ concat (map assignText as) @ ''} ''"

fun entryOK :: "word \<times> (string \<times> word) list \<Rightarrow> bool" where
  "entryOK (label, as) = (wordOK label \<and> list_all assignOK as)"

definition blockText :: "(word \<times> (string \<times> word) list) list \<Rightarrow> rune list" where
  "blockText es = ''domain { '' @ concat (map entryText es) @ ''} ''"

definition blockOK :: "(word \<times> (string \<times> word) list) list \<Rightarrow> bool" where
  "blockOK es = list_all entryOK es"

section \<open>Map files\<close>












section \<open>The sign-header list\<close>

lemma hasPrefix_length: "strings_HasPrefix h p \<Longrightarrow> length p \<le> length h"
proof -
  assume "strings_HasPrefix h p"
  then have "length (take (length p) h) = length p"
    by (simp add: strings_HasPrefix_def)
  then show ?thesis by simp
qed

lemma signHeaderPart_total: "\<exists>res. signHeaderPart part = Inr res"
  by (auto simp: signHeaderPart_def sliceFrom_def Let_def dest: hasPrefix_length)

lemma parseSignHeadersLoop_eq:
  "parseSignHeadersLoop parts out = Inr (out @ List.map_filter entryOf parts)"
proof (induction parts arbitrary: out)
  case Nil
  show ?case by (simp add: List.map_filter_simps)
next
  case (Cons part parts)
  obtain res where r: "signHeaderPart part = Inr res"
    using signHeaderPart_total by blast
  show ?case
    by (cases res) (simp_all add: r Cons entryOf_def List.map_filter_simps)
qed

lemma splitAcc_append:
  "splitAcc sep cur (pre @ sep # rest) = splitAcc sep cur pre @ splitAcc sep [] rest"
  by (induction pre arbitrary: cur) auto

lemma splitAcc_no_sep: "sep \<notin> set w \<Longrightarrow> splitAcc sep cur w = [cur @ w]"
  by (induction w arbitrary: cur) auto

lemma trimSpace_blank: "strings_TrimSpace s = [] \<longleftrightarrow> (\<forall>c\<in>set s. isSpace c)"
proof
  assume "strings_TrimSpace s = []"
  then have a: "\<forall>x\<in>set (dropWhile isSpace s). isSpace x"
    by (simp add: strings_TrimSpace_def dropWhile_eq_Nil_conv)
  have "dropWhile isSpace s = []"
  proof (rule ccontr)
    assume n: "dropWhile isSpace s \<noteq> []"
    then have "\<not> isSpace (hd (dropWhile isSpace s))" by (rule hd_dropWhile)
    moreover have "hd (dropWhile isSpace s) \<in> set (dropWhile isSpace s)"
      using n by simp
    ultimately show False using a by blast
  qed
  then show "\<forall>c\<in>set s. isSpace c" by (simp add: dropWhile_eq_Nil_conv)
next
  assume "\<forall>c\<in>set s. isSpace c"
  then have "dropWhile isSpace s = []" by (simp add: dropWhile_eq_Nil_conv)
  then show "strings_TrimSpace s = []"
    by (simp add: strings_TrimSpace_def del: dropWhile_eq_Nil_conv)
qed

lemma signHeaderPart_blank: "strings_TrimSpace part = [] \<Longrightarrow> signHeaderPart part = Inr None"
  by (simp add: signHeaderPart_def)

lemma entryOf_blank: "strings_TrimSpace part = [] \<Longrightarrow> entryOf part = None"
  by (simp add: entryOf_def signHeaderPart_blank)

lemma map_filter_drop_blank:
  "List.map_filter entryOf (filter (\<lambda>seg. strings_TrimSpace seg \<noteq> []) parts) = List.map_filter entryOf parts"
  by (induction parts) (auto simp: List.map_filter_simps entryOf_blank split: option.splits)

lemma colon_not_space: "\<not> isSpace (CHR '':'')"
  by (simp add: isSpace_def)

lemma map_filter_append:
  "List.map_filter f (xs @ ys) = List.map_filter f xs @ List.map_filter f ys"
  by (simp add: List.map_filter_def)

lemma parseSignHeaders_drop_blank: "parseSignHeaders raw =
           parseSignHeadersLoop
             (filter (\<lambda>seg. strings_TrimSpace seg \<noteq> []) (strings_Split raw (CHR '':''))) []"
  by (simp add: parseSignHeaders_def parseSignHeadersLoop_eq map_filter_drop_blank)

lemma parseSignHeaders_blank_between: assumes "\<forall>c\<in>set w. isSpace c"
  shows "parseSignHeaders (pre @ '':'' @ w @ '':'' @ post) = parseSignHeaders (pre @ '':'' @ post)"
proof -
  have "CHR '':'' \<notin> set w" using assms colon_not_space by blast
  then have w: "splitAcc (CHR '':'') [] w = [w]" by (simp add: splitAcc_no_sep)
  have "strings_TrimSpace w = []" using assms by (simp add: trimSpace_blank)
  then have e: "entryOf w = None" by (rule entryOf_blank)
  have "strings_Split (pre @ '':'' @ w @ '':'' @ post) (CHR '':'')
      = strings_Split pre (CHR '':'') @ [w] @ strings_Split post (CHR '':'')"
    using splitAcc_append [of "CHR '':''" "[]" pre "w @ '':'' @ post"]
          splitAcc_append [of "CHR '':''" "[]" w post] w
    by (simp add: strings_Split_def)
  moreover have "strings_Split (pre @ '':'' @ post) (CHR '':'')
      = strings_Split pre (CHR '':'') @ strings_Split post (CHR '':'')"
    using splitAcc_append [of "CHR '':''" "[]" pre post] by (simp add: strings_Split_def)
  ultimately show ?thesis
    by (simp add: parseSignHeaders_def parseSignHeadersLoop_eq List.map_filter_simps e
                  map_filter_append)
qed

lemma set_map_filter: "h \<in> set (List.map_filter f xs) \<longleftrightarrow> (\<exists>x\<in>set xs. f x = Some h)"
  by (induction xs) (auto simp: List.map_filter_simps split: option.splits)

lemma signHeaderPart_flags:
  assumes "signHeaderPart part = Inr (Some h)"
  shows "(Oversigned h \<longleftrightarrow> strings_HasPrefix (strings_TrimSpace part) ''(o)'') \<and>
         (OptionalOversigned h \<longleftrightarrow> strings_HasPrefix (strings_TrimSpace part) ''(x)'')"
  using assms
  by (auto simp: signHeaderPart_def Let_def strings_HasPrefix_def sliceFrom_def
           split: if_splits sum.splits)

lemma parseSignHeaders_total: "\<exists>out. parseSignHeaders raw = Inr out"
  by (simp add: parseSignHeaders_def parseSignHeadersLoop_eq)

lemma parseSignHeaders_entry:
  assumes "parseSignHeaders raw = Inr out" and "h \<in> set out"
  shows "\<exists>part\<in>set (strings_Split raw (CHR '':'')). signHeaderPart part = Inr (Some h)"
proof -
  from assms have "h \<in> set (List.map_filter entryOf (strings_Split raw (CHR '':'')))"
    by (simp add: parseSignHeaders_def parseSignHeadersLoop_eq)
  then obtain part where p: "part \<in> set (strings_Split raw (CHR '':''))" "entryOf part = Some h"
    by (auto simp: set_map_filter)
  from p(2) have "signHeaderPart part = Inr (Some h)"
    by (auto simp: entryOf_def split: sum.splits)
  with p(1) show ?thesis by blast
qed

text \<open>
  Claim C4: \<^verbatim>\<open>parseSignHeaders\<close> applied to \<^verbatim>\<open>(o)from:(x)date:plain\<close> returns the three
  entries from (oversigned), date (optional-oversigned) and plain (neither flag), in that
  order; on every input string it returns a list (the slice expression never panics); and
  segments that are empty or hold only white space produce no entry: the result is that
  of the loop run on the other segments alone, and a white-space segment between two
  colons can be removed together with one colon without changing the result.
\<close>

theorem parseSignHeaders_example_total_blank:
  "parseSignHeaders ''(o)from:(x)date:plain'' =
     Inr [\<lparr>Name = ''from'', Oversigned = True, OptionalOversigned = False\<rparr>,
          \<lparr>Name = ''date'', Oversigned = False, OptionalOversigned = True\<rparr>,
          \<lparr>Name = ''plain'', Oversigned = False, OptionalOversigned = False\<rparr>] \<and>
   (\<forall>raw. \<exists>out. parseSignHeaders raw = Inr out) \<and>
   (\<forall>raw. parseSignHeaders raw =
      parseSignHeadersLoop
        (filter (\<lambda>seg. \<not> (\<forall>c\<in>set seg. isSpace c)) (strings_Split raw (CHR '':''))) []) \<and>
   (\<forall>pre w post. (\<forall>c\<in>set w. isSpace c) \<longrightarrow>
      parseSignHeaders (pre @ '':'' @ w @ '':'' @ post) = parseSignHeaders (pre @ '':'' @ post))"
proof (intro conjI allI impI)
  show "parseSignHeaders ''(o)from:(x)date:plain'' =
     Inr [\<lparr>Name = ''from'', Oversigned = True, OptionalOversigned = False\<rparr>,
          \<lparr>Name = ''date'', Oversigned = False, OptionalOversigned = True\<rparr>,
          \<lparr>Name = ''plain'', Oversigned = False, OptionalOversigned = False\<rparr>]"
    by (simp add: parseSignHeaders_def strings_Split_def signHeaderPart_def
                  strings_TrimSpace_def strings_HasPrefix_def sliceFrom_def isSpace_def)
next
  fix raw
  show "\<exists>out. parseSignHeaders raw = Inr out" by (rule parseSignHeaders_total)
next
  fix raw
  show "parseSignHeaders raw =
      parseSignHeadersLoop
        (filter (\<lambda>seg. \<not> (\<forall>c\<in>set seg. isSpace c)) (strings_Split raw (CHR '':''))) []"
    using parseSignHeaders_drop_blank [of raw] by (simp add: trimSpace_blank)
next
  fix pre w post
  assume "\<forall>c\<in>set w. isSpace c"
  then show "parseSignHeaders (pre @ '':'' @ w @ '':'' @ post) = parseSignHeaders (pre @ '':'' @ post)"
    by (rule parseSignHeaders_blank_between)
qed

theorem parseSignHeaders_example_total_blank_witness:
  "isSpace (CHR '' '') \<and> isSpace (CHR 0x09) \<and>
   parseSignHeaders (''a'' @ '':'' @ [CHR '' '', CHR 0x09] @ '':'' @ ''b'') = parseSignHeaders ''a:b'' \<and>
   parseSignHeaders (''a'' @ '':'' @ [CHR '' '', CHR 0x09] @ '':'' @ ''b'') =
     Inr [\<lparr>Name = ''a'', Oversigned = False, OptionalOversigned = False\<rparr>,
          \<lparr>Name = ''b'', Oversigned = False, OptionalOversigned = False\<rparr>]"
proof -
  have h: "\<forall>c\<in>set [CHR '' '', CHR 0x09]. isSpace c" by (simp add: isSpace_def)
  from parseSignHeaders_example_total_blank h
  have "parseSignHeaders (''a'' @ '':'' @ [CHR '' '', CHR 0x09] @ '':'' @ ''b'') =
        parseSignHeaders (''a'' @ '':'' @ ''b'')"
    by blast
  moreover have "parseSignHeaders ''a:b'' =
     Inr [\<lparr>Name = ''a'', Oversigned = False, OptionalOversigned = False\<rparr>,
          \<lparr>Name = ''b'', Oversigned = False, OptionalOversigned = False\<rparr>]"
    by (simp add: parseSignHeaders_def strings_Split_def signHeaderPart_def
                  strings_TrimSpace_def strings_HasPrefix_def sliceFrom_def isSpace_def)
  ultimately show ?thesis by (simp add: isSpace_def)
qed

text \<open>
  Claim C8: for every input string, every entry of the list \<^verbatim>\<open>parseSignHeaders\<close> returns
  has its two oversign flags not both true; the entry comes from a segment of the input,
  is marked oversigned exactly when the trimmed segment starts with \<^verbatim>\<open>(o)\<close> and
  optional-oversigned exactly when it starts with \<^verbatim>\<open>(x)\<close>.
\<close>

theorem parseSignHeaders_flags_exclusive:
  assumes "parseSignHeaders raw = Inr out" and "h \<in> set out"
  shows "\<not> (Oversigned h \<and> OptionalOversigned h) \<and>
         (\<exists>part\<in>set (strings_Split raw (CHR '':'')).
            signHeaderPart part = Inr (Some h) \<and>
            (Oversigned h \<longleftrightarrow> strings_HasPrefix (strings_TrimSpace part) ''(o)'') \<and>
            (OptionalOversigned h \<longleftrightarrow> strings_HasPrefix (strings_TrimSpace part) ''(x)''))"
proof -
  from assms obtain part where p: "part \<in> set (strings_Split raw (CHR '':''))"
      "signHeaderPart part = Inr (Some h)"
    using parseSignHeaders_entry by blast
  from p(2) have f: "(Oversigned h \<longleftrightarrow> strings_HasPrefix (strings_TrimSpace part) ''(o)'') \<and>
         (OptionalOversigned h \<longleftrightarrow> strings_HasPrefix (strings_TrimSpace part) ''(x)'')"
    by (rule signHeaderPart_flags)
  have "\<not> (strings_HasPrefix (strings_TrimSpace part) ''(o)'' \<and>
           strings_HasPrefix (strings_TrimSpace part) ''(x)'')"
    by (auto simp: strings_HasPrefix_def)
  with f have "\<not> (Oversigned h \<and> OptionalOversigned h)" by blast
  with p f show ?thesis by blast
qed

theorem parseSignHeaders_flags_exclusive_witness:
  "parseSignHeaders ''(o)from:(x)date'' =
     Inr [\<lparr>Name = ''from'', Oversigned = True, OptionalOversigned = False\<rparr>,
          \<lparr>Name = ''date'', Oversigned = False, OptionalOversigned = True\<rparr>] \<and>
   \<not> (Oversigned \<lparr>Name = ''date'', Oversigned = False, OptionalOversigned = True\<rparr> \<and>
      OptionalOversigned \<lparr>Name = ''date'', Oversigned = False, OptionalOversigned = True\<rparr>)"
proof -
  have r: "parseSignHeaders ''(o)from:(x)date'' =
     Inr [\<lparr>Name = ''from'', Oversigned = True, OptionalOversigned = False\<rparr>,
          \<lparr>Name = ''date'', Oversigned = False, OptionalOversigned = True\<rparr>]"
    by (simp add: parseSignHeaders_def strings_Split_def signHeaderPart_def
                  strings_TrimSpace_def strings_HasPrefix_def sliceFrom_def isSpace_def)
  have m: "\<lparr>Name = ''date'', Oversigned = False, OptionalOversigned = True\<rparr> \<in>
           set [\<lparr>Name = ''from'', Oversigned = True, OptionalOversigned = False\<rparr>,
                \<lparr>Name = ''date'', Oversigned = False, OptionalOversigned = True\<rparr>]"
    by simp
  from parseSignHeaders_flags_exclusive [OF r m] r show ?thesis by blast
qed

section \<open>Facts about the lexer and the generic parser\<close>

declare parseDomainRule.simps [simp del] parseDomainEntries.simps [simp del]
  parseConfigLoop.simps [simp del]

lemma isSpace_not_hash: "isSpace c \<Longrightarrow> c \<noteq> CHR ''#''"
  by (auto simp: isSpace_def)

lemma lexRunes_space:
  "\<forall>c\<in>set ws. isSpace c \<Longrightarrow> lexRunes (ws @ rest) = lexRunes rest"
  by (induction ws) (auto simp: isSpace_not_hash)

lemma parseRspamdConfig_blank:
  assumes "\<forall>c\<in>set r. isSpace c"
  shows "parseRspamdConfig r = Inr (Map.empty, Map.empty)"
proof -
  have "lexRunes r = lexRunes []" using lexRunes_space [OF assms, of "[]"] by simp
  then show ?thesis
    by (simp add: parseRspamdConfig_def newLexer_def parseConfigLoop.simps lexer_next_def)
qed

lemma domainRules_empty: "domainRules Map.empty = Map.empty"
  by (rule ext) (simp add: domainRules_def)

lemma buildDKIMConf_empty:
  "buildDKIMConf Map.empty = Inr \<lparr>DKIMConf.Enabled = None, SignHeaders = [], SignHeaderList = []\<rparr>"
  by (simp add: buildDKIMConf_def lookupStr_def)

lemma buildDKIMSigningConf_empty:
  "buildDKIMSigningConf Map.empty Map.empty =
     Inr \<lparr>Enabled = None, AllowUsernameMismatch = None, SignAuthenticated = None,
          SignLocal = None, SignInbound = None, UseDomain = [], UseDomainSignLocal = [],
          UseDomainSignNetworks = [], AllowHdrFromMismatch = None, UseESLD = None,
          TryFallback = None, Path = [], Selector = [], PathMap = [], SelectorMap = [],
          Domain = Map.empty\<rparr>"
  by (simp add: buildDKIMSigningConf_def lookupStr_def setBool_def domainRules_empty)

text \<open>
  Claim C9: on an input that is empty or holds only white space both entry points succeed:
  \<^verbatim>\<open>ParseDKIMConf\<close> returns a config with \<^verbatim>\<open>Enabled\<close> unset, the empty
  \<^verbatim>\<open>SignHeaders\<close> and an empty \<^verbatim>\<open>SignHeaderList\<close>; \<^verbatim>\<open>ParseDKIMSigningConf\<close> returns a
  config with every optional boolean unset, every string empty and an empty \<^verbatim>\<open>Domain\<close>
  map.
\<close>

theorem parse_blank_input:
  assumes "\<forall>c\<in>set r. isSpace c"
  shows "ParseDKIMConf r =
           Inr \<lparr>DKIMConf.Enabled = None, SignHeaders = [], SignHeaderList = []\<rparr> \<and>
         ParseDKIMSigningConf r =
           Inr \<lparr>Enabled = None, AllowUsernameMismatch = None, SignAuthenticated = None,
                SignLocal = None, SignInbound = None, UseDomain = [], UseDomainSignLocal = [],
                UseDomainSignNetworks = [], AllowHdrFromMismatch = None, UseESLD = None,
                TryFallback = None, Path = [], Selector = [], PathMap = [], SelectorMap = [],
                Domain = Map.empty\<rparr>"
  using parseRspamdConfig_blank [OF assms]
  by (simp add: ParseDKIMConf_def ParseDKIMSigningConf_def buildDKIMConf_empty
                buildDKIMSigningConf_empty)

theorem parse_blank_input_witness:
  "isSpace (CHR '' '') \<and> isSpace (CHR 0x0A) \<and> isSpace (CHR 0x09) \<and>
   ParseDKIMConf [CHR '' '', CHR 0x0A, CHR 0x09] =
     Inr \<lparr>DKIMConf.Enabled = None, SignHeaders = [], SignHeaderList = []\<rparr> \<and>
   ParseDKIMConf [] =
     Inr \<lparr>DKIMConf.Enabled = None, SignHeaders = [], SignHeaderList = []\<rparr> \<and>
   (\<exists>conf. ParseDKIMSigningConf [CHR '' '', CHR 0x0A, CHR 0x09] = Inr conf \<and>
      Enabled conf = None \<and> Selector conf = [] \<and> Domain conf = Map.empty)"
proof -
  have h: "\<forall>c\<in>set [CHR '' '', CHR 0x0A, CHR 0x09]. isSpace c" by (simp add: isSpace_def)
  have e: "\<forall>c\<in>set ([] :: rune list). isSpace c" by simp
  from parse_blank_input [OF h] parse_blank_input [OF e] show ?thesis
    by (simp add: isSpace_def)
qed

section \<open>Quoted strings\<close>

lemma piecesText_simps [simp]:
  "piecesText [] = []"
  "piecesText (p # ps) = pieceText p @ piecesText ps"
  by (simp_all add: piecesText_def)

lemma readString_pieces:
  "\<forall>p\<in>set ps. plainOK p \<Longrightarrow>
   readString b (piecesText ps @ rest) = readString (b @ map pieceRune ps) rest"
proof (induction ps arbitrary: b)
  case Nil
  show ?case by simp
next
  case (Cons p ps)
  then show ?case by (cases p) auto
qed

lemma readString_closed:
  "\<forall>p\<in>set ps. plainOK p \<Longrightarrow>
   readString b (piecesText ps @ CHR 0x22 # rest) = (Inr (b @ map pieceRune ps), rest)"
  by (simp add: readString_pieces)

lemma readString_open:
  "\<forall>p\<in>set ps. plainOK p \<Longrightarrow> readString b (piecesText ps) = (Inl EOF, [])"
  using readString_pieces [of ps b "[]"] by simp

lemma readString_open_backslash:
  "\<forall>p\<in>set ps. plainOK p \<Longrightarrow> readString b (piecesText ps @ [CHR 0x5C]) = (Inl EOF, [])"
  by (simp add: readString_pieces)

text \<open>Every stream is of one of the three shapes: a closed body, an open body, or an open
  body that ends in a lone backslash.\<close>

lemma pieces_cover:
  "(\<exists>ps rest. (\<forall>p\<in>set ps. plainOK p) \<and> s = piecesText ps @ CHR 0x22 # rest) \<or>
   (\<exists>ps. (\<forall>p\<in>set ps. plainOK p) \<and> (s = piecesText ps \<or> s = piecesText ps @ [CHR 0x5C]))"
proof (induction s rule: length_induct)
  case (1 s)
  show ?case
  proof (cases s)
    case Nil
    have "(\<forall>p\<in>set []. plainOK p) \<and> s = piecesText []" using Nil by simp
    then show ?thesis by blast
  next
    case (Cons c cs)
    show ?thesis
    proof (cases "c = CHR 0x22")
      case True
      have "(\<forall>p\<in>set []. plainOK p) \<and> s = piecesText [] @ CHR 0x22 # cs"
        using Cons True by simp
      then show ?thesis by blast
    next
      case notq: False
      show ?thesis
      proof (cases "c = CHR 0x5C")
        case False
        have "length cs < length s" using Cons by simp
        with 1 have ih:
          "(\<exists>ps rest. (\<forall>p\<in>set ps. plainOK p) \<and> cs = piecesText ps @ CHR 0x22 # rest) \<or>
           (\<exists>ps. (\<forall>p\<in>set ps. plainOK p) \<and> (cs = piecesText ps \<or> cs = piecesText ps @ [CHR 0x5C]))"
          by blast
        then show ?thesis
        proof (elim disjE exE conjE)
          fix ps rest
          assume a: "\<forall>p\<in>set ps. plainOK p" "cs = piecesText ps @ CHR 0x22 # rest"
          then have "(\<forall>p\<in>set (Plain c # ps). plainOK p) \<and>
                     s = piecesText (Plain c # ps) @ CHR 0x22 # rest"
            using Cons notq False by simp
          then show ?thesis by blast
        next
          fix ps
          assume a: "\<forall>p\<in>set ps. plainOK p" "cs = piecesText ps"
          then have "(\<forall>p\<in>set (Plain c # ps). plainOK p) \<and> s = piecesText (Plain c # ps)"
            using Cons notq False by simp
          then show ?thesis by blast
        next
          fix ps
          assume a: "\<forall>p\<in>set ps. plainOK p" "cs = piecesText ps @ [CHR 0x5C]"
          then have "(\<forall>p\<in>set (Plain c # ps). plainOK p) \<and>
                     s = piecesText (Plain c # ps) @ [CHR 0x5C]"
            using Cons notq False by simp
          then show ?thesis by blast
        qed
      next
        case True
        show ?thesis
        proof (cases cs)
          case Nil
          have "(\<forall>p\<in>set []. plainOK p) \<and> s = piecesText [] @ [CHR 0x5C]"
            using Cons True Nil by simp
          then show ?thesis by blast
        next
          case (Cons e es)
          have "length es < length s" using Cons \<open>s = c # cs\<close> by simp
          with 1 have ih:
            "(\<exists>ps rest. (\<forall>p\<in>set ps. plainOK p) \<and> es = piecesText ps @ CHR 0x22 # rest) \<or>
             (\<exists>ps. (\<forall>p\<in>set ps. plainOK p) \<and> (es = piecesText ps \<or> es = piecesText ps @ [CHR 0x5C]))"
            by blast
          then show ?thesis
          proof (elim disjE exE conjE)
            fix ps rest
            assume a: "\<forall>p\<in>set ps. plainOK p" "es = piecesText ps @ CHR 0x22 # rest"
            then have "(\<forall>p\<in>set (Escaped e # ps). plainOK p) \<and>
                       s = piecesText (Escaped e # ps) @ CHR 0x22 # rest"
              using Cons \<open>s = c # cs\<close> True by simp
            then show ?thesis by blast
          next
            fix ps
            assume a: "\<forall>p\<in>set ps. plainOK p" "es = piecesText ps"
            then have "(\<forall>p\<in>set (Escaped e # ps). plainOK p) \<and> s = piecesText (Escaped e # ps)"
              using Cons \<open>s = c # cs\<close> True by simp
            then show ?thesis by blast
          next
            fix ps
            assume a: "\<forall>p\<in>set ps. plainOK p" "es = piecesText ps @ [CHR 0x5C]"
            then have "(\<forall>p\<in>set (Escaped e # ps). plainOK p) \<and>
                       s = piecesText (Escaped e # ps) @ [CHR 0x5C]"
              using Cons \<open>s = c # cs\<close> True by simp
            then show ?thesis by blast
          qed
        qed
      qed
    qed
  qed
qed

lemma lexRunes_quote:
  "lexRunes (CHR 0x22 # rs) =
     (case readString [] rs of
        (Inl err, rest) \<Rightarrow> (Inl err, rest)
      | (Inr str, rest) \<Rightarrow> (Inr \<lparr>typ' = tokenString, val = str\<rparr>, rest))"
  by (simp add: isSpace_def)

text \<open>
  Claim C7: after the opening quote the lexer copies every rune into the token text up to
  the first quote that is not escaped; a backslash followed by a rune X puts X itself into
  the text, whatever X is (an escaped quote does not close the string); and when the
  stream ends before the closing quote, or right after a backslash, the result is the
  error \<^verbatim>\<open>io.EOF\<close> and no token.  Every stream after an opening quote has one of these
  shapes.
\<close>

theorem readString_contract:
  assumes "\<forall>p\<in>set ps. plainOK p"
  shows "readString b (piecesText ps @ CHR 0x22 # rest) = (Inr (b @ map pieceRune ps), rest) \<and>
         lexRunes (CHR 0x22 # piecesText ps @ CHR 0x22 # rest) =
           (Inr \<lparr>typ' = tokenString, val = map pieceRune ps\<rparr>, rest) \<and>
         readString b (piecesText ps) = (Inl EOF, []) \<and>
         readString b (piecesText ps @ [CHR 0x5C]) = (Inl EOF, []) \<and>
         lexRunes (CHR 0x22 # piecesText ps) = (Inl EOF, []) \<and>
         lexRunes (CHR 0x22 # piecesText ps @ [CHR 0x5C]) = (Inl EOF, []) \<and>
         (\<forall>s. (\<exists>qs rest'. (\<forall>p\<in>set qs. plainOK p) \<and> s = piecesText qs @ CHR 0x22 # rest') \<or>
              (\<exists>qs. (\<forall>p\<in>set qs. plainOK p) \<and>
                    (s = piecesText qs \<or> s = piecesText qs @ [CHR 0x5C])))"
proof (intro conjI allI)
  show "readString b (piecesText ps @ CHR 0x22 # rest) = (Inr (b @ map pieceRune ps), rest)"
    using assms by (rule readString_closed)
  show "lexRunes (CHR 0x22 # piecesText ps @ CHR 0x22 # rest) =
           (Inr \<lparr>typ' = tokenString, val = map pieceRune ps\<rparr>, rest)"
    using readString_closed [OF assms, of "[]" rest] by (simp add: lexRunes_quote del: lexRunes.simps)
  show "readString b (piecesText ps) = (Inl EOF, [])"
    using assms by (rule readString_open)
  show "readString b (piecesText ps @ [CHR 0x5C]) = (Inl EOF, [])"
    using assms by (rule readString_open_backslash)
  show "lexRunes (CHR 0x22 # piecesText ps) = (Inl EOF, [])"
    using readString_open [OF assms, of "[]"] by (simp add: lexRunes_quote del: lexRunes.simps)
  show "lexRunes (CHR 0x22 # piecesText ps @ [CHR 0x5C]) = (Inl EOF, [])"
    using readString_open_backslash [OF assms, of "[]"] by (simp add: lexRunes_quote del: lexRunes.simps)
next
  fix s
  show "(\<exists>qs rest'. (\<forall>p\<in>set qs. plainOK p) \<and> s = piecesText qs @ CHR 0x22 # rest') \<or>
        (\<exists>qs. (\<forall>p\<in>set qs. plainOK p) \<and> (s = piecesText qs \<or> s = piecesText qs @ [CHR 0x5C]))"
    by (rule pieces_cover)
qed

theorem readString_contract_witness:
  "readString [] [CHR ''a'', CHR 0x5C, CHR ''n'', CHR 0x5C, CHR 0x5C, CHR 0x5C, CHR 0x22,
                  CHR ''b'', CHR 0x22, CHR ''c''] =
     (Inr [CHR ''a'', CHR ''n'', CHR 0x5C, CHR 0x22, CHR ''b''], ''c'') \<and>
   lexRunes [CHR 0x22, CHR ''a'', CHR 0x5C, CHR ''n'', CHR 0x5C, CHR 0x5C, CHR 0x5C, CHR 0x22,
             CHR ''b''] = (Inl EOF, [])"
proof -
  let ?ps = "[Plain (CHR ''a''), Escaped (CHR ''n''), Escaped (CHR 0x5C), Escaped (CHR 0x22),
              Plain (CHR ''b'')]"
  have h: "\<forall>p\<in>set ?ps. plainOK p" by simp
  from readString_contract [OF h, of "[]" "''c''"] show ?thesis by simp
qed

section \<open>Optional booleans\<close>

lemma parseBool_Inr:
  "parseBool v = Inr b \<longleftrightarrow>
     (strings_ToLower v = ''true'' \<and> b) \<or> (strings_ToLower v = ''false'' \<and> \<not> b)"
  by (auto simp: parseBool_def Let_def)

lemma parseBool_Inl: "parseBool v = Inl e \<longleftrightarrow> \<not> isBoolText v \<and> e = InvalidBoolean v"
  by (auto simp: parseBool_def Let_def isBoolText_def)


lemma setBool_Inl:
  "setBool assignments None key = Inl e \<longleftrightarrow>
     (\<exists>v. assignments key = Some v \<and> \<not> isBoolText v \<and> e = ParseKey key (InvalidBoolean v))"
  by (cases "assignments key")
     (auto simp: setBool_def parseBool_def Let_def isBoolText_def split: sum.splits)

lemma setBool_good:
  assumes "\<forall>v. assignments key = Some v \<longrightarrow> isBoolText v"
  shows "\<exists>b. setBool assignments None key = Inr b"
proof (cases "setBool assignments None key")
  case (Inl e)
  with assms show ?thesis by (auto simp: setBool_Inl)
next
  case (Inr b)
  then show ?thesis by blast
qed








lemmas eval_defs =
  parseRspamdConfig_def newLexer_def lexer_next_def expect_def parseValue_def
  tryConsume_def unread_def parseDomainBlock_def parseConfigLoop.simps
  parseDomainEntries.simps parseDomainRule.simps
  isSpace_def isIdentStart_def isIdentPart_def isLetter_def isDigit_def


section \<open>Lexical errors where an optional semicolon is probed\<close>

text \<open>
  Claim C1 says that a rune that can start no token makes the parse return a lexical
  error wherever it stands, also where the parser probes for an optional semicolon.  The
  lexer does return the error there, and \<^verbatim>\<open>tryConsume\<close> passes it on, but the three
  callers drop it (\<^verbatim>\<open>_, _ = tryConsume(l, tokenSemicolon)\<close>): on the input
  \<^verbatim>\<open>a = b @\<close> both entry points succeed, while the same rune after a semicolon is
  reported.  An unterminated quoted string met by the probe is dropped the same way.
\<close>

theorem stray_rune_after_value_accepted:
  "tryConsume \<lparr>input = '' @'', peek = None\<rparr> tokenSemicolon =
     (Inl (UnexpectedCharacter (CHR ''@'')), \<lparr>input = [], peek = None\<rparr>) \<and>
   parseRspamdConfig ''a = b @'' = Inr ([''a'' \<mapsto> ''b''], Map.empty) \<and>
   ParseDKIMConf ''a = b @'' =
     Inr \<lparr>DKIMConf.Enabled = None, SignHeaders = [], SignHeaderList = []\<rparr> \<and>
   (\<exists>conf. ParseDKIMSigningConf ''a = b @'' = Inr conf) \<and>
   ParseDKIMConf ''a = b; @'' = Inl (UnexpectedCharacter (CHR ''@'')) \<and>
   ParseDKIMSigningConf ''a = b; @'' = Inl (UnexpectedCharacter (CHR ''@'')) \<and>
   parseRspamdConfig (''a = b '' @ [CHR 0x22] @ ''abc'') = Inr ([''a'' \<mapsto> ''b''], Map.empty)"
proof -
  have t: "tryConsume \<lparr>input = '' @'', peek = None\<rparr> tokenSemicolon =
     (Inl (UnexpectedCharacter (CHR ''@'')), \<lparr>input = [], peek = None\<rparr>)"
    by (simp add: eval_defs)
  have p: "parseRspamdConfig ''a = b @'' = Inr ([''a'' \<mapsto> ''b''], Map.empty)"
    by (simp add: eval_defs)
  have c: "ParseDKIMConf ''a = b @'' =
     Inr \<lparr>DKIMConf.Enabled = None, SignHeaders = [], SignHeaderList = []\<rparr>"
    by (simp add: ParseDKIMConf_def p buildDKIMConf_def lookupStr_def)
  have s: "\<exists>conf. ParseDKIMSigningConf ''a = b @'' = Inr conf"
    by (simp add: ParseDKIMSigningConf_def p buildDKIMSigningConf_def lookupStr_def
                  setBool_def)
  have q: "parseRspamdConfig ''a = b; @'' = Inl (UnexpectedCharacter (CHR ''@''))"
    by (simp add: eval_defs)
  have u: "parseRspamdConfig (''a = b '' @ [CHR 0x22] @ ''abc'') =
             Inr ([''a'' \<mapsto> ''b''], Map.empty)"
    by (simp add: eval_defs)
  from t p c s q u show ?thesis
    by (simp add: ParseDKIMConf_def ParseDKIMSigningConf_def)
qed

section \<open>Domain blocks\<close>









section \<open>Lexing identifiers and quoted words\<close>

lemma isIdentStart_plain:
  "isIdentStart c \<Longrightarrow>
     c \<noteq> CHR ''#'' \<and> \<not> isSpace c \<and> c \<noteq> CHR ''{'' \<and> c \<noteq> CHR ''}'' \<and> c \<noteq> CHR ''='' \<and>
     c \<noteq> CHR '';'' \<and> c \<noteq> CHR 0x22"
  by (auto simp: isIdentStart_def isLetter_def isSpace_def)

lemma readIdent_run:
  "list_all isIdentPart cs \<Longrightarrow> stopsIdent rest \<Longrightarrow>
   readIdent buf (cs @ rest) = (buf @ cs, rest)"
proof (induction cs arbitrary: buf)
  case Nil
  then show ?case by (cases rest) (simp_all add: stopsIdent_def)
next
  case (Cons c cs)
  then show ?case by simp
qed

lemma lexRunes_ident:
  assumes "isIdentText s" and "stopsIdent rest"
  shows "lexRunes (s @ rest) = (Inr \<lparr>typ' = tokenIdent, val = s\<rparr>, rest)"
proof -
  from assms(1) obtain c cs where s: "s = c # cs" "isIdentStart c" "list_all isIdentPart cs"
    by (cases s) (auto simp: isIdentText_def)
  from isIdentStart_plain [OF s(2)] readIdent_run [OF s(3) assms(2), of "[c]"] s(1,2)
  show ?thesis by simp
qed

lemma lexRunes_word:
  assumes "wordOK w" and "stopsIdent rest"
  shows "lexRunes (wordText w @ rest) = (Inr (wordToken w), rest)"
proof (cases w)
  case (Bare s)
  with assms show ?thesis by (simp add: lexRunes_ident)
next
  case (Quoted ps)
  with assms have "\<forall>p\<in>set ps. plainOK p" by (simp add: list_all_iff)
  from readString_closed [OF this, of "[]" rest] Quoted show ?thesis
    by (simp add: lexRunes_quote del: lexRunes.simps)
qed

lemma wordToken_typ: "typ' (wordToken w) = tokenIdent \<or> typ' (wordToken w) = tokenString"
  by (cases w) simp_all

lemma stopsIdent_simps [simp]:
  "stopsIdent []"
  "stopsIdent (CHR '' '' # rs)"
  "stopsIdent (CHR '';'' # rs)"
  "stopsIdent (CHR 0x0A # rs)"
  "stopsIdent (CHR ''}'' # rs)"
  "stopsIdent (CHR ''{'' # rs)"
  "stopsIdent (CHR ''='' # rs)"
  by (simp_all add: stopsIdent_def isIdentPart_def isLetter_def isDigit_def)

text \<open>A pushed-back token is what the lexer gives next; every parsing function starts by
  asking the lexer, so two lexers that give the same answer parse alike.\<close>

lemma lexer_next_fresh:
  "lexer_next \<lparr>input = rs, peek = None\<rparr> =
     (case lexRunes rs of (res, rest) \<Rightarrow> (res, \<lparr>input = rest, peek = None\<rparr>))"
  by (simp add: lexer_next_def split: prod.splits)

lemma lexer_next_pushed:
  "lexRunes rs = (Inr t, rest) \<Longrightarrow>
   lexer_next \<lparr>input = rest, peek = Some t\<rparr> = lexer_next \<lparr>input = rs, peek = None\<rparr>"
  by (simp add: lexer_next_def)



lemma parseConfigLoop_cong:
  "lexer_next l = lexer_next l' \<Longrightarrow> parseConfigLoop l a d = parseConfigLoop l' a d"
  by (simp add: parseConfigLoop.simps [of l] parseConfigLoop.simps [of l'])

lemma parseDomainRule_cong:
  "lexer_next l = lexer_next l' \<Longrightarrow> parseDomainRule l rule = parseDomainRule l' rule"
  by (simp add: parseDomainRule.simps [of l] parseDomainRule.simps [of l'])

lemma parseDomainEntries_cong:
  "lexer_next l = lexer_next l' \<Longrightarrow> parseDomainEntries l d = parseDomainEntries l' d"
  by (simp add: parseDomainEntries.simps [of l] parseDomainEntries.simps [of l'])

section \<open>Optional semicolons\<close>

lemma wordToken_typ_simps [simp]:
  "typ' (wordToken w) \<noteq> tokenEOF"
  "typ' (wordToken w) \<noteq> tokenLBrace"
  "typ' (wordToken w) \<noteq> tokenRBrace"
  "typ' (wordToken w) \<noteq> tokenEqual"
  "typ' (wordToken w) \<noteq> tokenSemicolon"
  by (cases w; simp)+










section \<open>Domain blocks and the module config\<close>

text \<open>The error and the final lexer of the domain-block loops do not depend on the domain
  map they fill, and the assignments and the error of the main loop do not either.\<close>

lemma parseDomainEntries_frame:
  "map_sum (\<lambda>e. e) snd (parseDomainEntries l d) = map_sum (\<lambda>e. e) snd (parseDomainEntries l d')"
proof (induction l d arbitrary: d' rule: parseDomainEntries.induct)
  case (1 l domains)
  obtain res l1 where n: "lexer_next l = (res, l1)" by (cases "lexer_next l")
  show ?case
  proof (cases res)
    case (Inl err)
    with n show ?thesis by (simp add: parseDomainEntries.simps [of l])
  next
    case (Inr tok)
    show ?thesis
    proof (cases "typ' tok = tokenRBrace")
      case True
      with n Inr show ?thesis
        by (simp add: parseDomainEntries.simps [of l] split: prod.splits)
    next
      case notR: False
      show ?thesis
      proof (cases "typ' tok = tokenIdent \<or> typ' tok = tokenString")
        case False
        with n Inr notR show ?thesis by (simp add: parseDomainEntries.simps [of l])
      next
        case True
        obtain e l2 where ex: "expect l1 tokenLBrace = (e, l2)"
          by (cases "expect l1 tokenLBrace")
        show ?thesis
        proof (cases e)
          case (Some err)
          with n Inr notR True ex show ?thesis
            by (simp add: parseDomainEntries.simps [of l])
        next
          case None
          show ?thesis
          proof (cases "parseDomainRule l2 Map.empty")
            case (Inl err)
            with n Inr notR True ex None show ?thesis
              by (simp add: parseDomainEntries.simps [of l])
          next
            case pr: (Inr x3)
            obtain rule l3 where x3: "x3 = (rule, l3)" by (cases x3)
            have ih: "map_sum (\<lambda>e. e) snd (parseDomainEntries l3 (domains(val tok \<mapsto> rule))) =
                      map_sum (\<lambda>e. e) snd (parseDomainEntries l3 (d'(val tok \<mapsto> rule)))"
              using 1 [OF n [symmetric] Inr notR True ex [symmetric] None pr x3 [symmetric]] .
            from n Inr notR True ex None pr x3 ih show ?thesis
              by (simp add: parseDomainEntries.simps [of l])
          qed
        qed
      qed
    qed
  qed
qed

lemma parseDomainBlock_frame:
  "map_sum (\<lambda>e. e) snd (parseDomainBlock l d) = map_sum (\<lambda>e. e) snd (parseDomainBlock l d')"
  by (cases "expect l tokenLBrace")
     (auto simp: parseDomainBlock_def parseDomainEntries_frame split: option.splits)

lemma parseConfigLoop_frame:
  "map_sum (\<lambda>e. e) fst (parseConfigLoop l a d) = map_sum (\<lambda>e. e) fst (parseConfigLoop l a d')"
proof (induction l a d arbitrary: d' rule: parseConfigLoop.induct)
  case (1 l assignments domains)
  obtain res l1 where n: "lexer_next l = (res, l1)" by (cases "lexer_next l")
  show ?case
  proof (cases res)
    case (Inl err)
    with n show ?thesis by (simp add: parseConfigLoop.simps [of l])
  next
    case (Inr tok)
    show ?thesis
    proof (cases "typ' tok = tokenEOF")
      case True
      with n Inr show ?thesis by (simp add: parseConfigLoop.simps [of l])
    next
      case notE: False
      show ?thesis
      proof (cases "typ' tok = tokenIdent")
        case False
        with n Inr notE show ?thesis by (simp add: parseConfigLoop.simps [of l])
      next
        case True
        show ?thesis
        proof (cases "val tok = ''domain''")
          case dom: True
          show ?thesis
          proof (cases "parseDomainBlock l1 domains")
            case (Inl err)
            then have "parseDomainBlock l1 d' = Inl err"
              using parseDomainBlock_frame [of l1 domains d']
              by (cases "parseDomainBlock l1 d'") auto
            with Inl n Inr notE True dom show ?thesis
              by (simp add: parseConfigLoop.simps [of l])
          next
            case pb: (Inr x2)
            obtain d2 l2 where x2: "x2 = (d2, l2)" by (cases x2)
            from pb x2 obtain d2' where pb': "parseDomainBlock l1 d' = Inr (d2', l2)"
              using parseDomainBlock_frame [of l1 domains d']
              by (cases "parseDomainBlock l1 d'") auto
            have ih: "map_sum (\<lambda>e. e) fst (parseConfigLoop l2 assignments d2) =
                      map_sum (\<lambda>e. e) fst (parseConfigLoop l2 assignments d2')"
              using 1(1) [OF n [symmetric] Inr notE True dom pb x2 [symmetric]] .
            from n Inr notE True dom pb x2 pb' ih show ?thesis
              by (simp add: parseConfigLoop.simps [of l])
          qed
        next
          case nodom: False
          obtain e l2 where ex: "expect l1 tokenEqual = (e, l2)"
            by (cases "expect l1 tokenEqual")
          obtain pv l3 where pv: "parseValue l2 = (pv, l3)" by (cases "parseValue l2")
          obtain ig l4 where tc: "tryConsume l3 tokenSemicolon = (ig, l4)"
            by (cases "tryConsume l3 tokenSemicolon")
          show ?thesis
          proof (cases e)
            case (Some err)
            with n Inr notE True nodom ex show ?thesis
              by (simp add: parseConfigLoop.simps [of l])
          next
            case None
            show ?thesis
            proof (cases pv)
              case (Inl err)
              with n Inr notE True nodom ex None pv show ?thesis
                by (simp add: parseConfigLoop.simps [of l])
            next
              case v: (Inr v)
              have ih: "map_sum (\<lambda>e. e) fst (parseConfigLoop l4 (assignments(val tok \<mapsto> v)) domains) =
                        map_sum (\<lambda>e. e) fst (parseConfigLoop l4 (assignments(val tok \<mapsto> v)) d')"
                using 1(2) [OF n [symmetric] Inr notE True nodom ex [symmetric] None
                               pv [symmetric] v tc [symmetric]] .
              from n Inr notE True nodom ex None pv v tc ih show ?thesis
                by (simp add: parseConfigLoop.simps [of l])
            qed
          qed
        qed
      qed
    qed
  qed
qed

lemma parseConfigLoop_skip_block:
  assumes "lexer_next l = (Inr tok, l1)" and "typ' tok = tokenIdent" and "val tok = ''domain''"
    and "parseDomainBlock l1 d = Inr (d', l2)"
  shows "map_sum (\<lambda>e. e) fst (parseConfigLoop l a d) = map_sum (\<lambda>e. e) fst (parseConfigLoop l2 a d)"
proof -
  have "parseConfigLoop l a d = parseConfigLoop l2 a d'"
    using assms by (simp add: parseConfigLoop.simps [of l])
  then show ?thesis using parseConfigLoop_frame [of l2 a d' d] by simp
qed

lemma lexer_next_space:
  "lexer_next \<lparr>input = CHR '' '' # rs, peek = None\<rparr> = lexer_next \<lparr>input = rs, peek = None\<rparr>"
  by (simp add: lexer_next_def isSpace_def)

lemma parseDomainRule_space:
  "parseDomainRule \<lparr>input = CHR '' '' # rs, peek = None\<rparr> rule =
   parseDomainRule \<lparr>input = rs, peek = None\<rparr> rule"
  by (rule parseDomainRule_cong) (rule lexer_next_space)

lemma parseDomainEntries_space:
  "parseDomainEntries \<lparr>input = CHR '' '' # rs, peek = None\<rparr> d =
   parseDomainEntries \<lparr>input = rs, peek = None\<rparr> d"
  by (rule parseDomainEntries_cong) (rule lexer_next_space)

lemma parseDomainRule_assign:
  assumes "isIdentText k" and "wordOK w"
  shows "parseDomainRule \<lparr>input = k @ '' = '' @ wordText w @ ''; '' @ rs, peek = None\<rparr> rule =
         parseDomainRule \<lparr>input = rs, peek = None\<rparr> (rule(k \<mapsto> val (wordToken w)))"
proof -
  have "parseDomainRule \<lparr>input = k @ '' = '' @ wordText w @ ''; '' @ rs, peek = None\<rparr> rule =
        parseDomainRule \<lparr>input = CHR '' '' # rs, peek = None\<rparr> (rule(k \<mapsto> val (wordToken w)))"
    using assms
    by (subst parseDomainRule.simps)
       (simp add: lexer_next_def expect_def parseValue_def tryConsume_def unread_def
                  lexRunes_ident lexRunes_word wordToken_typ isSpace_def)
  then show ?thesis by (simp add: parseDomainRule_space)
qed

lemma parseDomainRule_close:
  assumes "lexRunes rest = (Inr t, rest')" and "typ' t \<noteq> tokenSemicolon"
  shows "parseDomainRule \<lparr>input = ''} '' @ rest, peek = None\<rparr> rule =
         Inr (rule, \<lparr>input = rest', peek = Some t\<rparr>)"
  using assms
  by (subst parseDomainRule.simps)
     (simp add: lexer_next_def tryConsume_def unread_def isSpace_def)

lemma parseDomainRule_assignments:
  assumes "list_all assignOK as" and "lexRunes rest = (Inr t, rest')"
    and "typ' t \<noteq> tokenSemicolon"
  shows "\<exists>rule'. parseDomainRule
           \<lparr>input = concat (map assignText as) @ ''} '' @ rest, peek = None\<rparr> rule =
         Inr (rule', \<lparr>input = rest', peek = Some t\<rparr>)"
  using assms(1)
proof (induction as arbitrary: rule)
  case Nil
  show ?case using parseDomainRule_close [OF assms(2,3)] by simp
next
  case (Cons a as)
  obtain k w where a: "a = (k, w)" by (cases a)
  with Cons.prems have ok: "isIdentText k" "wordOK w" "list_all assignOK as" by simp_all
  from Cons.IH [OF ok(3), of "rule(k \<mapsto> val (wordToken w))"] obtain rule' where
    "parseDomainRule \<lparr>input = concat (map assignText as) @ ''} '' @ rest, peek = None\<rparr>
       (rule(k \<mapsto> val (wordToken w))) = Inr (rule', \<lparr>input = rest', peek = Some t\<rparr>)"
    by blast
  then show ?case
    using parseDomainRule_assign [OF ok(1,2),
            of "concat (map assignText as) @ ''} '' @ rest" rule] a
    by simp
qed

text \<open>The first token of the rest of a block is a label or the closing brace.\<close>

lemma entries_first_token:
  assumes "list_all entryOK es"
  shows "\<exists>t r. lexRunes (concat (map entryText es) @ ''} '' @ rest) = (Inr t, r) \<and>
               typ' t \<noteq> tokenSemicolon"
proof (cases es)
  case Nil
  then show ?thesis by (simp add: isSpace_def)
next
  case (Cons e es')
  obtain label as where e: "e = (label, as)" by (cases e)
  with assms Cons have "wordOK label" by simp
  then have "lexRunes (wordText label @ '' { '' @ concat (map assignText as) @ ''} '' @
                concat (map entryText es') @ ''} '' @ rest) =
             (Inr (wordToken label), '' { '' @ concat (map assignText as) @ ''} '' @
                concat (map entryText es') @ ''} '' @ rest)"
    by (simp add: lexRunes_word)
  with Cons e show ?thesis by simp
qed

lemma parseDomainEntries_close:
  assumes "lexRunes rest = (Inr t, rest')" and "typ' t \<noteq> tokenSemicolon"
  shows "parseDomainEntries \<lparr>input = ''} '' @ rest, peek = None\<rparr> d =
         Inr (d, \<lparr>input = rest', peek = Some t\<rparr>)"
  using assms
  by (subst parseDomainEntries.simps)
     (simp add: lexer_next_def tryConsume_def unread_def isSpace_def)

lemma parseDomainEntries_block:
  assumes "list_all entryOK es" and "lexRunes rest = (Inr t, rest')"
    and "typ' t \<noteq> tokenSemicolon"
  shows "\<exists>d'. parseDomainEntries
           \<lparr>input = concat (map entryText es) @ ''} '' @ rest, peek = None\<rparr> d =
         Inr (d', \<lparr>input = rest', peek = Some t\<rparr>)"
  using assms(1)
proof (induction es arbitrary: d)
  case Nil
  show ?case using parseDomainEntries_close [OF assms(2,3)] by simp
next
  case (Cons e es)
  obtain label as where e: "e = (label, as)" by (cases e)
  with Cons.prems have ok: "wordOK label" "list_all assignOK as" "list_all entryOK es"
    by simp_all
  let ?tail = "concat (map entryText es) @ ''} '' @ rest"
  from entries_first_token [OF ok(3), of rest] obtain t2 r2 where
    t2: "lexRunes ?tail = (Inr t2, r2)" "typ' t2 \<noteq> tokenSemicolon"
    by blast
  from parseDomainRule_assignments [OF ok(2) t2, of Map.empty] obtain rule where
    rule: "parseDomainRule \<lparr>input = concat (map assignText as) @ ''} '' @ ?tail, peek = None\<rparr>
             Map.empty = Inr (rule, \<lparr>input = r2, peek = Some t2\<rparr>)"
    by blast
  have pushed: "parseDomainEntries \<lparr>input = r2, peek = Some t2\<rparr> (d(val (wordToken label) \<mapsto> rule)) =
        parseDomainEntries \<lparr>input = ?tail, peek = None\<rparr> (d(val (wordToken label) \<mapsto> rule))"
    by (rule parseDomainEntries_cong) (rule lexer_next_pushed [OF t2(1)])
  have step: "parseDomainEntries
          \<lparr>input = wordText label @ '' { '' @ concat (map assignText as) @ ''} '' @ ?tail,
            peek = None\<rparr> d =
        parseDomainEntries \<lparr>input = r2, peek = Some t2\<rparr> (d(val (wordToken label) \<mapsto> rule))"
    using ok(1) rule
    by (subst parseDomainEntries.simps)
       (simp add: lexer_next_def expect_def lexRunes_word wordToken_typ isSpace_def
                  parseDomainRule_space)
  from Cons.IH [OF ok(3), of "d(val (wordToken label) \<mapsto> rule)"] obtain d' where
    "parseDomainEntries \<lparr>input = ?tail, peek = None\<rparr> (d(val (wordToken label) \<mapsto> rule)) =
       Inr (d', \<lparr>input = rest', peek = Some t\<rparr>)"
    by blast
  with step pushed e show ?case by simp
qed

lemma parseConfigLoop_block:
  assumes "blockOK es" and "lexRunes s = (Inr t, s')" and "typ' t \<noteq> tokenSemicolon"
  shows "\<exists>d'. parseConfigLoop \<lparr>input = blockText es @ s, peek = None\<rparr> a d =
              parseConfigLoop \<lparr>input = s, peek = None\<rparr> a d'"
proof -
  from parseDomainEntries_block [OF assms(1) [unfolded blockOK_def] assms(2,3), of d]
  obtain d' where d': "parseDomainEntries
           \<lparr>input = concat (map entryText es) @ ''} '' @ s, peek = None\<rparr> d =
         Inr (d', \<lparr>input = s', peek = Some t\<rparr>)"
    by blast
  have "parseConfigLoop \<lparr>input = blockText es @ s, peek = None\<rparr> a d =
        parseConfigLoop \<lparr>input = s', peek = Some t\<rparr> a d'"
    using d'
    by (subst parseConfigLoop.simps)
       (simp add: blockText_def lexer_next_def expect_def parseDomainBlock_def isSpace_def
                  isIdentStart_def isIdentPart_def isLetter_def isDigit_def
                  parseDomainEntries_space)
  moreover have "parseConfigLoop \<lparr>input = s', peek = Some t\<rparr> a d' =
                 parseConfigLoop \<lparr>input = s, peek = None\<rparr> a d'"
    by (rule parseConfigLoop_cong) (rule lexer_next_pushed [OF assms(2)])
  ultimately show ?thesis by auto
qed

lemma parseRspamdConfig_first_token:
  assumes "parseRspamdConfig s = Inr x"
  shows "\<exists>t s'. lexRunes s = (Inr t, s') \<and> typ' t \<noteq> tokenSemicolon"
proof -
  obtain res s' where l: "lexRunes s = (res, s')" by (cases "lexRunes s")
  show ?thesis
  proof (cases res)
    case (Inl err)
    with assms l show ?thesis
      by (simp add: parseRspamdConfig_def newLexer_def lexer_next_def
                    parseConfigLoop.simps [of "\<lparr>input = s, peek = None\<rparr>"])
  next
    case (Inr t)
    with assms l have "typ' t \<noteq> tokenSemicolon"
      by (auto simp: parseRspamdConfig_def newLexer_def lexer_next_def
                     parseConfigLoop.simps [of "\<lparr>input = s, peek = None\<rparr>"])
    with l Inr show ?thesis by blast
  qed
qed

lemma ParseDKIMConf_assignments:
  "ParseDKIMConf r =
     (case map_sum (\<lambda>e. e) fst (parseRspamdConfig r) of
        Inl err \<Rightarrow> Inl err
      | Inr assignments \<Rightarrow> buildDKIMConf assignments)"
  by (cases "parseRspamdConfig r") (auto simp: ParseDKIMConf_def)

lemma ParseDKIMConf_block:
  assumes "blockOK es" and "lexRunes s = (Inr t, s')" and "typ' t \<noteq> tokenSemicolon"
  shows "ParseDKIMConf (blockText es @ s) = ParseDKIMConf s"
proof -
  from parseConfigLoop_block [OF assms, of Map.empty Map.empty] obtain d' where
    "parseConfigLoop \<lparr>input = blockText es @ s, peek = None\<rparr> Map.empty Map.empty =
     parseConfigLoop \<lparr>input = s, peek = None\<rparr> Map.empty d'"
    by blast
  then have "map_sum (\<lambda>e. e) fst (parseRspamdConfig (blockText es @ s)) =
             map_sum (\<lambda>e. e) fst (parseRspamdConfig s)"
    using parseConfigLoop_frame [of "\<lparr>input = s, peek = None\<rparr>" Map.empty d' Map.empty]
    by (simp add: parseRspamdConfig_def newLexer_def)
  then show ?thesis by (simp add: ParseDKIMConf_assignments)
qed

text \<open>
  Claim C10: \<^verbatim>\<open>ParseDKIMConf\<close> accepts well-formed domain blocks and drops them.  Its
  result is a function of the error or the assignments of the generic parse alone; a
  well-formed block put in front of an input whose first token is neither a lexical error
  nor a semicolon leaves the result unchanged, so every config returned for an input is
  returned with the block in front as well; and wherever the main loop meets the word
  \<^verbatim>\<open>domain\<close> followed by a block that parses, its error or assignments are those of the
  loop resumed after the block.
\<close>

theorem ParseDKIMConf_drops_domain_blocks:
  "(\<forall>r. ParseDKIMConf r =
      (case map_sum (\<lambda>e. e) fst (parseRspamdConfig r) of
         Inl err \<Rightarrow> Inl err
       | Inr assignments \<Rightarrow> buildDKIMConf assignments)) \<and>
   (\<forall>es s t s'.
      blockOK es \<and> lexRunes s = (Inr t, s') \<and> typ' t \<noteq> tokenSemicolon \<longrightarrow>
      ParseDKIMConf (blockText es @ s) = ParseDKIMConf s) \<and>
   (\<forall>es s conf.
      blockOK es \<and> ParseDKIMConf s = Inr conf \<longrightarrow> ParseDKIMConf (blockText es @ s) = Inr conf) \<and>
   (\<forall>l tok l1 d d' l2 a.
      lexer_next l = (Inr tok, l1) \<and> typ' tok = tokenIdent \<and> val tok = ''domain'' \<and>
      parseDomainBlock l1 d = Inr (d', l2) \<longrightarrow>
      map_sum (\<lambda>e. e) fst (parseConfigLoop l a d) =
      map_sum (\<lambda>e. e) fst (parseConfigLoop l2 a d))"
proof (intro conjI allI impI)
  fix r
  show "ParseDKIMConf r =
      (case map_sum (\<lambda>e. e) fst (parseRspamdConfig r) of
         Inl err \<Rightarrow> Inl err
       | Inr assignments \<Rightarrow> buildDKIMConf assignments)"
    by (rule ParseDKIMConf_assignments)
next
  fix es s t s'
  assume "blockOK es \<and> lexRunes s = (Inr t, s') \<and> typ' t \<noteq> tokenSemicolon"
  then show "ParseDKIMConf (blockText es @ s) = ParseDKIMConf s"
    using ParseDKIMConf_block by blast
next
  fix es s conf
  assume a: "blockOK es \<and> ParseDKIMConf s = Inr conf"
  then obtain x where "parseRspamdConfig s = Inr x"
    by (cases "parseRspamdConfig s") (auto simp: ParseDKIMConf_def)
  from parseRspamdConfig_first_token [OF this] obtain t s' where
    "lexRunes s = (Inr t, s')" "typ' t \<noteq> tokenSemicolon"
    by blast
  with a show "ParseDKIMConf (blockText es @ s) = Inr conf"
    using ParseDKIMConf_block [of es s t s'] by simp
next
  fix l tok l1 d d' l2 a
  assume "lexer_next l = (Inr tok, l1) \<and> typ' tok = tokenIdent \<and> val tok = ''domain'' \<and>
      parseDomainBlock l1 d = Inr (d', l2)"
  then show "map_sum (\<lambda>e. e) fst (parseConfigLoop l a d) =
      map_sum (\<lambda>e. e) fst (parseConfigLoop l2 a d)"
    using parseConfigLoop_skip_block by blast
qed

theorem ParseDKIMConf_drops_domain_blocks_witness:
  "blockOK [(Quoted (map Plain ''a.com''), [(''selector'', Bare ''s1'')])] \<and>
   blockText [(Quoted (map Plain ''a.com''), [(''selector'', Bare ''s1'')])] =
     ''domain { '' @ [CHR 0x22] @ ''a.com'' @ [CHR 0x22] @ '' { selector = s1; } } '' \<and>
   ParseDKIMConf ''enabled = false'' =
     Inr \<lparr>DKIMConf.Enabled = Some False, SignHeaders = [], SignHeaderList = []\<rparr> \<and>
   ParseDKIMConf
     (''domain { '' @ [CHR 0x22] @ ''a.com'' @ [CHR 0x22] @ '' { selector = s1; } } '' @
      ''enabled = false'') =
     Inr \<lparr>DKIMConf.Enabled = Some False, SignHeaders = [], SignHeaderList = []\<rparr>"
proof -
  let ?es = "[(Quoted (map Plain ''a.com''), [(''selector'', Bare ''s1'')])]"
  have ok: "blockOK ?es"
    by (simp add: blockOK_def isIdentText_def isIdentStart_def isIdentPart_def isLetter_def
                  isDigit_def)
  have bt: "blockText ?es =
     ''domain { '' @ [CHR 0x22] @ ''a.com'' @ [CHR 0x22] @ '' { selector = s1; } } ''"
    by (simp add: blockText_def)
  have p: "parseRspamdConfig ''enabled = false'' = Inr ([''enabled'' \<mapsto> ''false''], Map.empty)"
    by (simp add: eval_defs)
  have low: "strings_ToLower ''false'' = ''false''" by code_simp
  have c: "ParseDKIMConf ''enabled = false'' =
     Inr \<lparr>DKIMConf.Enabled = Some False, SignHeaders = [], SignHeaderList = []\<rparr>"
    by (simp add: ParseDKIMConf_def p buildDKIMConf_def lookupStr_def parseBool_def low)
  have "ParseDKIMConf (blockText ?es @ ''enabled = false'') =
     Inr \<lparr>DKIMConf.Enabled = Some False, SignHeaders = [], SignHeaderList = []\<rparr>"
    using ParseDKIMConf_drops_domain_blocks
            [THEN conjunct2, THEN conjunct2, THEN conjunct1, rule_format,
             of ?es "''enabled = false''"] ok c
    by simp
  with bt have "ParseDKIMConf
     (''domain { '' @ [CHR 0x22] @ ''a.com'' @ [CHR 0x22] @ '' { selector = s1; } } '' @
      ''enabled = false'') =
     Inr \<lparr>DKIMConf.Enabled = Some False, SignHeaders = [], SignHeaderList = []\<rparr>"
    by simp
  with ok bt c show ?thesis by blast
qed

section \<open>Properties of the map-file parser\<close>

















end
